theory Spec2Isabelle
  imports Complex_Main
begin

section \<open>Exceptions\<close>

text \<open>
  The exceptions the engine raises. An exception never discards the mutations made
  before it was raised, so every operation that can raise returns the pair of an
  optional exception and the state reached: \<open>(None, s)\<close> is a normal return,
  \<open>(Some e, s)\<close> is \<open>e\<close> propagating with the objects left in state \<open>s\<close>.
\<close>

datatype exn =
    InconsistencyException
  | StopSearchException
  | ValueError
  | IndexError
  | NotImplementedError
  | OverflowError
  | RuntimeError
  | AssertionError
  | RecursionError
  | ZeroDivisionError

section \<open>state.py: the trail strategy\<close>

text \<open>
  A reference to a reversible primitive is the index of its object in the heap of the
  manager that created it. Python's \<open>bool\<close> is a subclass of \<open>int\<close>
  (\<open>True == 1\<close>, \<open>False == 0\<close>), so every stored value is an \<open>int\<close>.

  \<open>class Trail\<close>: the fields \<open>_v\<close> and \<open>_last_magic\<close>.
\<close>

record trail =
  trail_v :: int
  trail_last_magic :: int

text \<open>
  \<open>_TrailStateEntry(v, trail)\<close> and \<open>_CopyStateEntry(v, copy)\<close>: the saved value and
  the primitive it belongs to.
\<close>

type_synonym state_entry = "int \<times> nat"

text \<open>
  A restore listener (\<open>on_restore\<close>) is a closure without arguments that
  \<open>restore_state\<close> calls when it has restored. The model keeps what a listener does
  to the primitives of the manager: from their values (the function from references
  to values) it makes a sequence of \<open>set_value(r, x)\<close> calls, and then returns or
  raises. What a listener does to other objects is not part of the state of a manager;
  a listener that itself saves or restores the state, or registers a primitive or a
  listener, is not covered.
\<close>

type_synonym restore_listener = "(nat \<Rightarrow> int) \<Rightarrow> (nat \<times> int) list \<times> exn option"

text \<open>
  \<open>class Trailer\<close>. \<open>_prior\<close> and \<open>_current\<close> are deques used as stacks
  (\<open>append\<close> and \<open>pop\<close> on the right): the head of each list is the right end of the
  deque. \<open>tr_heap\<close> holds the \<open>Trail\<close> objects made by this manager.
\<close>

record trailer =
  tr_prior :: "state_entry list list"
  tr_current :: "state_entry list"
  tr_magic :: int
  tr_heap :: "trail list"
  tr_on_restore_listeners :: "restore_listener list"

definition Trailer_init :: trailer where
  "Trailer_init =
     \<lparr>tr_prior = [], tr_current = [], tr_magic = 0, tr_heap = [],
      tr_on_restore_listeners = []\<rparr>"

definition tr_on_restore :: "restore_listener \<Rightarrow> trailer \<Rightarrow> trailer" where
  "tr_on_restore listener s =
     s\<lparr>tr_on_restore_listeners := tr_on_restore_listeners s @ [listener]\<rparr>"

definition tr_get_level :: "trailer \<Rightarrow> int" where
  "tr_get_level s = int (length (tr_prior s)) - 1"

definition tr_save_state :: "trailer \<Rightarrow> trailer" where
  "tr_save_state s =
     s\<lparr>tr_prior := tr_current s # tr_prior s, tr_current := [], tr_magic := tr_magic s + 1\<rparr>"

text \<open>\<open>_BackupTrail.restore\<close>: \<open>while self: self.pop().restore()\<close>.\<close>

fun backup_trail_restore :: "state_entry list \<Rightarrow> trail list \<Rightarrow> trail list" where
  "backup_trail_restore [] h = h"
| "backup_trail_restore ((x, r) # es) h = backup_trail_restore es (h[r := (h ! r)\<lparr>trail_v := x\<rparr>])"

text \<open>\<open>Trailer.make_state_ref\<close> / \<open>make_state_int\<close>: \<open>Trail(self, init_value)\<close>.\<close>

definition tr_make_state_int :: "int \<Rightarrow> trailer \<Rightarrow> nat \<times> trailer" where
  "tr_make_state_int init s =
     (length (tr_heap s),
      s\<lparr>tr_heap := tr_heap s @ [\<lparr>trail_v = init, trail_last_magic = tr_magic s - 1\<rparr>]\<rparr>)"

text \<open>\<open>Trail.trail\<close>.\<close>

definition trail_trail :: "nat \<Rightarrow> trailer \<Rightarrow> trailer" where
  "trail_trail r s =
     (let c = tr_heap s ! r; trail_magic = tr_magic s in
      if trail_last_magic c \<noteq> trail_magic
      then s\<lparr>tr_heap := (tr_heap s)[r := c\<lparr>trail_last_magic := trail_magic\<rparr>],
             tr_current := (trail_v c, r) # tr_current s\<rparr>
      else s)"

text \<open>
  \<open>Trail.set_value\<close>. The value the method returns is the value of the primitive
  afterwards (\<open>trail_value\<close> of the result).
\<close>

definition trail_set_value :: "nat \<Rightarrow> int \<Rightarrow> trailer \<Rightarrow> trailer" where
  "trail_set_value r x s =
     (if x \<noteq> trail_v (tr_heap s ! r)
      then (let s1 = trail_trail r s in
            s1\<lparr>tr_heap := (tr_heap s1)[r := (tr_heap s1 ! r)\<lparr>trail_v := x\<rparr>]\<rparr>)
      else s)"

definition trail_value :: "nat \<Rightarrow> trailer \<Rightarrow> int" where
  "trail_value r s = trail_v (tr_heap s ! r)"

text \<open>
  \<open>Trailer._notify_restore\<close>: \<open>for procedure in self._on_restore_listeners:
  procedure()\<close>. A listener that raises ends the loop.
\<close>

fun tr_notify_restore :: "restore_listener list \<Rightarrow> trailer \<Rightarrow> exn option \<times> trailer" where
  "tr_notify_restore [] s = (None, s)"
| "tr_notify_restore (procedure # ls) s =
     (case procedure (\<lambda>r. trail_value r s) of
        (ws, e) \<Rightarrow>
          (let s1 = fold (\<lambda>(r, x). trail_set_value r x) ws s in
           case e of Some ex \<Rightarrow> (Some ex, s1) | None \<Rightarrow> tr_notify_restore ls s1))"

text \<open>
  \<open>Trailer.restore_state\<close>. \<open>tr_pop_state\<close> is its first three statements,
  \<open>self._current.restore(); self._current = self._prior.pop(); self._magic += 1\<close>:
  the current trail is undone first; popping an empty \<open>_prior\<close> then raises IndexError,
  with the trail already emptied. The last statement is \<open>self._notify_restore()\<close>.
\<close>

definition tr_pop_state :: "trailer \<Rightarrow> exn option \<times> trailer" where
  "tr_pop_state s =
     (let h = backup_trail_restore (tr_current s) (tr_heap s) in
      case tr_prior s of
        [] \<Rightarrow> (Some IndexError, s\<lparr>tr_current := [], tr_heap := h\<rparr>)
      | p # ps \<Rightarrow>
          (None, s\<lparr>tr_heap := h, tr_current := p, tr_prior := ps, tr_magic := tr_magic s + 1\<rparr>))"

definition tr_restore_state :: "trailer \<Rightarrow> exn option \<times> trailer" where
  "tr_restore_state s =
     (case tr_pop_state s of
        (Some e, s1) \<Rightarrow> (Some e, s1)
      | (None, s1) \<Rightarrow> tr_notify_restore (tr_on_restore_listeners s1) s1)"

section \<open>state.py: the copy strategy\<close>

text \<open>
  \<open>class Copier\<close>. \<open>_store\<close> lists the registered primitives in the order of their
  registration; \<open>_prior\<close> is a stack of \<open>_Backup\<close>s with its right end at the head;
  a backup lists its entries in the order of the store. \<open>co_heap\<close> holds the field
  \<open>_v\<close> of the \<open>Copy\<close> objects.
\<close>

record copier =
  co_store :: "nat list"
  co_prior :: "state_entry list list"
  co_heap :: "int list"
  co_on_restore_listeners :: "restore_listener list"

definition Copier_init :: copier where
  "Copier_init = \<lparr>co_store = [], co_prior = [], co_heap = [], co_on_restore_listeners = []\<rparr>"

definition co_on_restore :: "restore_listener \<Rightarrow> copier \<Rightarrow> copier" where
  "co_on_restore listener s =
     s\<lparr>co_on_restore_listeners := co_on_restore_listeners s @ [listener]\<rparr>"

definition co_get_level :: "copier \<Rightarrow> int" where
  "co_get_level s = int (length (co_prior s)) - 1"

text \<open>\<open>_Backup.__init__\<close>: one \<open>storage.save()\<close> per element of the store.\<close>

definition Backup :: "copier \<Rightarrow> state_entry list" where
  "Backup s = map (\<lambda>r. (co_heap s ! r, r)) (co_store s)"

definition co_save_state :: "copier \<Rightarrow> copier" where
  "co_save_state s = s\<lparr>co_prior := Backup s # co_prior s\<rparr>"

text \<open>\<open>_Backup.restore\<close>: \<open>for state_entry in self: state_entry.restore()\<close>.\<close>

fun backup_restore :: "state_entry list \<Rightarrow> int list \<Rightarrow> int list" where
  "backup_restore [] h = h"
| "backup_restore ((x, r) # es) h = backup_restore es (h[r := x])"

definition co_make_state_int :: "int \<Rightarrow> copier \<Rightarrow> nat \<times> copier" where
  "co_make_state_int init s =
     (length (co_heap s),
      s\<lparr>co_heap := co_heap s @ [init], co_store := co_store s @ [length (co_heap s)]\<rparr>)"

definition copy_set_value :: "nat \<Rightarrow> int \<Rightarrow> copier \<Rightarrow> copier" where
  "copy_set_value r x s = s\<lparr>co_heap := (co_heap s)[r := x]\<rparr>"

definition copy_value :: "nat \<Rightarrow> copier \<Rightarrow> int" where
  "copy_value r s = co_heap s ! r"

text \<open>\<open>Copier._notify_restore\<close>, the same loop as the trailer's.\<close>

fun co_notify_restore :: "restore_listener list \<Rightarrow> copier \<Rightarrow> exn option \<times> copier" where
  "co_notify_restore [] s = (None, s)"
| "co_notify_restore (procedure # ls) s =
     (case procedure (\<lambda>r. copy_value r s) of
        (ws, e) \<Rightarrow>
          (let s1 = fold (\<lambda>(r, x). copy_set_value r x) ws s in
           case e of Some ex \<Rightarrow> (Some ex, s1) | None \<Rightarrow> co_notify_restore ls s1))"

text \<open>
  \<open>Copier.restore_state\<close>: \<open>self._prior.pop().restore(); self._notify_restore()\<close>.
  \<open>co_pop_state\<close> is the first statement.
\<close>

definition co_pop_state :: "copier \<Rightarrow> exn option \<times> copier" where
  "co_pop_state s =
     (case co_prior s of
        [] \<Rightarrow> (Some IndexError, s)
      | b # bs \<Rightarrow> (None, s\<lparr>co_prior := bs, co_heap := backup_restore b (co_heap s)\<rparr>))"

definition co_restore_state :: "copier \<Rightarrow> exn option \<times> copier" where
  "co_restore_state s =
     (case co_pop_state s of
        (Some e, s1) \<Rightarrow> (Some e, s1)
      | (None, s1) \<Rightarrow> co_notify_restore (co_on_restore_listeners s1) s1)"

section \<open>state.py: the StateManager interface\<close>

text \<open>A state manager is one of the two strategies; the methods dispatch on it.\<close>

datatype state_manager = Trailer trailer | Copier copier

fun get_level :: "state_manager \<Rightarrow> int" where
  "get_level (Trailer s) = tr_get_level s"
| "get_level (Copier s) = co_get_level s"

fun save_state :: "state_manager \<Rightarrow> state_manager" where
  "save_state (Trailer s) = Trailer (tr_save_state s)"
| "save_state (Copier s) = Copier (co_save_state s)"

fun restore_state :: "state_manager \<Rightarrow> exn option \<times> state_manager" where
  "restore_state (Trailer s) = (case tr_restore_state s of (e, s') \<Rightarrow> (e, Trailer s'))"
| "restore_state (Copier s) = (case co_restore_state s of (e, s') \<Rightarrow> (e, Copier s'))"


fun on_restore_listeners :: "state_manager \<Rightarrow> restore_listener list" where
  "on_restore_listeners (Trailer s) = tr_on_restore_listeners s"
| "on_restore_listeners (Copier s) = co_on_restore_listeners s"

fun make_state_int :: "int \<Rightarrow> state_manager \<Rightarrow> nat \<times> state_manager" where
  "make_state_int init (Trailer s) = (case tr_make_state_int init s of (r, s') \<Rightarrow> (r, Trailer s'))"
| "make_state_int init (Copier s) = (case co_make_state_int init s of (r, s') \<Rightarrow> (r, Copier s'))"

fun state_value :: "nat \<Rightarrow> state_manager \<Rightarrow> int" where
  "state_value r (Trailer s) = trail_value r s"
| "state_value r (Copier s) = copy_value r s"

fun set_value :: "nat \<Rightarrow> int \<Rightarrow> state_manager \<Rightarrow> state_manager" where
  "set_value r x (Trailer s) = Trailer (trail_set_value r x s)"
| "set_value r x (Copier s) = Copier (copy_set_value r x s)"

text \<open>\<open>StateInt.increment\<close> and \<open>StateInt.decrement\<close>.\<close>

definition increment :: "nat \<Rightarrow> state_manager \<Rightarrow> state_manager" where
  "increment r m = set_value r (state_value r m + 1) m"

definition decrement :: "nat \<Rightarrow> state_manager \<Rightarrow> state_manager" where
  "decrement r m = set_value r (state_value r m - 1) m"


fun heap_size :: "state_manager \<Rightarrow> nat" where
  "heap_size (Trailer s) = length (tr_heap s)"
| "heap_size (Copier s) = length (co_heap s)"

text \<open>
  A listener is quiet when it writes no primitive and raises nothing, whatever the
  values of the primitives. A manager without listeners has only quiet listeners.
\<close>

definition quiet_listener :: "restore_listener \<Rightarrow> bool" where
  "quiet_listener l = (\<forall>v. l v = ([], None))"

definition quiet :: "state_manager \<Rightarrow> bool" where
  "quiet m = (\<forall>l \<in> set (on_restore_listeners m). quiet_listener l)"

lemma tr_set_value_prior: "tr_prior (trail_set_value r x t) = tr_prior t"
  by (simp add: trail_set_value_def trail_trail_def Let_def)

lemma tr_fold_set_value_prior:
  "tr_prior (fold (\<lambda>(r, x). trail_set_value r x) ws t) = tr_prior t"
  by (induction ws arbitrary: t) (auto simp: tr_set_value_prior)

lemma tr_notify_restore_prior: "tr_prior (snd (tr_notify_restore ls t)) = tr_prior t"
  by (induction ls arbitrary: t)
     (auto simp: tr_fold_set_value_prior Let_def split: prod.splits option.splits)

lemma co_fold_set_value_prior:
  "co_prior (fold (\<lambda>(r, x). copy_set_value r x) ws c) = co_prior c"
  by (induction ws arbitrary: c) (auto simp: copy_set_value_def)

lemma co_notify_restore_prior: "co_prior (snd (co_notify_restore ls c)) = co_prior c"
  by (induction ls arbitrary: c)
     (auto simp: co_fold_set_value_prior Let_def split: prod.splits option.splits)

lemma restore_state_level:
  assumes "restore_state m = (None, m')"
  shows "get_level m' = get_level m - 1" and "get_level m \<ge> 0"
proof -
  show "get_level m' = get_level m - 1"
  proof (cases m)
    case (Trailer t)
    with assms obtain t1 where p: "tr_pop_state t = (None, t1)"
      by (auto simp: tr_restore_state_def split: prod.splits option.splits)
    with assms Trailer have "m' = Trailer (snd (tr_notify_restore (tr_on_restore_listeners t1) t1))"
      by (auto simp: tr_restore_state_def split: prod.splits)
    moreover from p have "length (tr_prior t1) = length (tr_prior t) - 1" "tr_prior t \<noteq> []"
      by (auto simp: tr_pop_state_def Let_def split: list.splits)
    ultimately show ?thesis
      using Trailer by (cases "tr_prior t") (auto simp: tr_get_level_def tr_notify_restore_prior)
  next
    case (Copier c)
    with assms obtain c1 where p: "co_pop_state c = (None, c1)"
      by (auto simp: co_restore_state_def split: prod.splits option.splits)
    with assms Copier have "m' = Copier (snd (co_notify_restore (co_on_restore_listeners c1) c1))"
      by (auto simp: co_restore_state_def split: prod.splits)
    moreover from p have "length (co_prior c1) = length (co_prior c) - 1" "co_prior c \<noteq> []"
      by (auto simp: co_pop_state_def split: list.splits)
    ultimately show ?thesis
      using Copier by (cases "co_prior c") (auto simp: co_get_level_def co_notify_restore_prior)
  qed
  show "get_level m \<ge> 0"
  proof (cases m)
    case (Trailer t)
    with assms have "tr_prior t \<noteq> []"
      by (auto simp: tr_restore_state_def tr_pop_state_def Let_def
          split: prod.splits option.splits list.splits)
    with Trailer show ?thesis by (cases "tr_prior t") (auto simp: tr_get_level_def)
  next
    case (Copier c)
    with assms have "co_prior c \<noteq> []"
      by (auto simp: co_restore_state_def co_pop_state_def
          split: prod.splits option.splits list.splits)
    with Copier show ?thesis by (cases "co_prior c") (auto simp: co_get_level_def)
  qed
qed

lemma restore_state_decreases:
  "restore_state m = (None, m') \<Longrightarrow> nat (get_level m' + 1) < nat (get_level m + 1)"
  using restore_state_level [of m m'] by simp

text \<open>
  \<open>restore_state_until\<close>: \<open>while self.get_level() > level: self.restore_state()\<close>.
  The level is at least \<open>-1\<close> and every successful \<open>restore_state\<close> lowers it.
\<close>

function restore_state_until :: "int \<Rightarrow> state_manager \<Rightarrow> exn option \<times> state_manager" where
  "restore_state_until level m =
     (if get_level m > level
      then (case restore_state m of
              (Some e, m') \<Rightarrow> (Some e, m')
            | (None, m') \<Rightarrow> restore_state_until level m')
      else (None, m))"
  by pat_completeness auto
termination
  apply (relation "measure (\<lambda>(level, m). nat (get_level m + 1))")
   apply simp
  apply (auto dest!: sym [where t = "restore_state m" for m] restore_state_decreases)
  done

declare restore_state_until.simps [simp del]

text \<open>
  The state of a run is the pair of the objects that are not reversible primitives and
  the state manager (with its heap). A closure of the engine (\<open>Callable[[], None]\<close>)
  transforms such a pair and may raise.
\<close>

type_synonym 'x closure = "'x \<times> state_manager \<Rightarrow> exn option \<times> 'x \<times> state_manager"

text \<open>
  \<open>Trailer.with_new_state\<close> and \<open>Copier.with_new_state\<close> (the same four statements):
  \<open>level = self.get_level(); self.save_state(); body(); self.restore_state_until(level)\<close>.
  There is no \<open>try\<close>: an exception raised by \<open>body\<close> leaves the method at once.
\<close>

definition with_new_state :: "'x closure \<Rightarrow> 'x closure" where
  "with_new_state body s =
     (case s of (x, m) \<Rightarrow>
        (let level = get_level m in
         case body (x, save_state m) of
           (Some e, s2) \<Rightarrow> (Some e, s2)
         | (None, (x2, m2)) \<Rightarrow>
             (case restore_state_until level m2 of (e, m3) \<Rightarrow> (e, (x2, m3)))))"

section \<open>Sequences of calls on a state manager\<close>

text \<open>
  The calls a client makes on a manager and its primitives: \<open>make_state_ref\<close> or
  \<open>make_state_int\<close>, \<open>set_value\<close>, \<open>increment\<close>, \<open>decrement\<close>, \<open>save_state\<close> and
  \<open>restore_state\<close>. A sequence of calls stops at the first exception.
\<close>

datatype op =
    MakeStateInt int
  | SetValue nat int
  | Increment nat
  | Decrement nat
  | SaveState
  | RestoreState

fun do_op :: "op \<Rightarrow> state_manager \<Rightarrow> exn option \<times> state_manager" where
  "do_op (MakeStateInt init) m = (None, snd (make_state_int init m))"
| "do_op (SetValue r x) m = (None, set_value r x m)"
| "do_op (Increment r) m = (None, increment r m)"
| "do_op (Decrement r) m = (None, decrement r m)"
| "do_op SaveState m = (None, save_state m)"
| "do_op RestoreState m = restore_state m"




text \<open>
  A call on a primitive refers to an object of the heap, which has \<open>n\<close> objects at the
  start and one more after each registration; a write is a call on a primitive.
\<close>

fun refs_ok :: "nat \<Rightarrow> op list \<Rightarrow> bool" where
  "refs_ok n [] = True"
| "refs_ok n (MakeStateInt init # ops) = refs_ok (Suc n) ops"
| "refs_ok n (SetValue r x # ops) = (r < n \<and> refs_ok n ops)"
| "refs_ok n (Increment r # ops) = (r < n \<and> refs_ok n ops)"
| "refs_ok n (Decrement r # ops) = (r < n \<and> refs_ok n ops)"
| "refs_ok n (SaveState # ops) = refs_ok n ops"
| "refs_ok n (RestoreState # ops) = refs_ok n ops"


section \<open>Invariants of the managers\<close>

text \<open>
  The trail strategy rests on the magic number: no primitive carries a magic number
  above the manager's, and a primitive that carries the manager's has an entry in the
  current trail. The copy strategy needs only that the store lists objects of the heap.
  Both hold initially and are kept by every method.
\<close>

definition tr_wf :: "trailer \<Rightarrow> bool" where
  "tr_wf t =
     (\<forall>r < length (tr_heap t).
        trail_last_magic (tr_heap t ! r) \<le> tr_magic t \<and>
        (trail_last_magic (tr_heap t ! r) = tr_magic t \<longrightarrow> r \<in> snd ` set (tr_current t)))"

definition co_wf :: "copier \<Rightarrow> bool" where
  "co_wf c = (\<forall>r \<in> set (co_store c). r < length (co_heap c))"

fun wf_manager :: "state_manager \<Rightarrow> bool" where
  "wf_manager (Trailer t) = tr_wf t"
| "wf_manager (Copier c) = co_wf c"

text \<open>
  The values a trailer would restore, frame by frame from the top: the snapshot of a
  frame is what undoing the trails above it leaves.
\<close>

fun snaps_of :: "int list \<Rightarrow> state_entry list \<Rightarrow> state_entry list list \<Rightarrow> int list list" where
  "snaps_of vs cur [] = []"
| "snaps_of vs cur (p # ps) = backup_restore cur vs # snaps_of (backup_restore cur vs) p ps"

definition tr_vals :: "trailer \<Rightarrow> int list" where
  "tr_vals t = map trail_v (tr_heap t)"

definition tr_snaps :: "trailer \<Rightarrow> int list list" where
  "tr_snaps t = snaps_of (tr_vals t) (tr_current t) (tr_prior t)"

text \<open>
  \<open>tr_quiet\<close> and \<open>co_quiet\<close>: all restore listeners are quiet. \<open>listeners_ok n ls\<close>:
  the listeners \<open>ls\<close> write primitives among the first \<open>n\<close> only.
\<close>

definition tr_quiet :: "trailer \<Rightarrow> bool" where
  "tr_quiet t = (\<forall>l \<in> set (tr_on_restore_listeners t). quiet_listener l)"

definition co_quiet :: "copier \<Rightarrow> bool" where
  "co_quiet c = (\<forall>l \<in> set (co_on_restore_listeners c). quiet_listener l)"


section \<open>Saving and restoring: the proofs\<close>

lemma quiet_simps [simp]:
  "quiet (Trailer t) = tr_quiet t"
  "quiet (Copier c) = co_quiet c"
  by (simp_all add: quiet_def tr_quiet_def co_quiet_def)

lemma length_backup_trail_restore [simp]:
  "length (backup_trail_restore es h) = length h"
  by (induction es h rule: backup_trail_restore.induct) auto

lemma length_backup_restore [simp]:
  "length (backup_restore es vs) = length vs"
  by (induction es vs rule: backup_restore.induct) auto

lemma vals_backup_trail_restore:
  "map trail_v (backup_trail_restore es h) = backup_restore es (map trail_v h)"
  by (induction es h rule: backup_trail_restore.induct) (auto simp: map_update)

lemma last_magic_backup_trail_restore:
  "r < length h \<Longrightarrow>
   trail_last_magic (backup_trail_restore es h ! r) = trail_last_magic (h ! r)"
proof (induction es h rule: backup_trail_restore.induct)
  case (1 h)
  then show ?case by simp
next
  case (2 x q es h)
  then show ?case by (cases "q = r") auto
qed





lemma length_snaps_of [simp]: "length (snaps_of vs cur ps) = length ps"
  by (induction ps arbitrary: vs cur) auto


lemma tr_vals_nth: "r < length (tr_heap t) \<Longrightarrow> tr_vals t ! r = trail_v (tr_heap t ! r)"
  by (simp add: tr_vals_def)

lemma length_tr_vals [simp]: "length (tr_vals t) = length (tr_heap t)"
  by (simp add: tr_vals_def)

subsection \<open>The listeners\<close>

lemma tr_notify_restore_quiet:
  "\<forall>l \<in> set ls. quiet_listener l \<Longrightarrow> tr_notify_restore ls t = (None, t)"
  by (induction ls arbitrary: t) (auto simp: quiet_listener_def)

lemma co_notify_restore_quiet:
  "\<forall>l \<in> set ls. quiet_listener l \<Longrightarrow> co_notify_restore ls c = (None, c)"
  by (induction ls arbitrary: c) (auto simp: quiet_listener_def)

subsection \<open>The steps of a trailer\<close>


lemma tr_save_state_frame:
  "length (tr_heap (tr_save_state t)) = length (tr_heap t)"
  "tr_prior (tr_save_state t) = tr_current t # tr_prior t"
  "tr_on_restore_listeners (tr_save_state t) = tr_on_restore_listeners t"
  by (simp_all add: tr_save_state_def)

lemma tr_wf_save: "tr_wf t \<Longrightarrow> tr_wf (tr_save_state t)"
  by (fastforce simp: tr_wf_def tr_save_state_def)

lemma tr_pop_state_ok:
  assumes "tr_prior t \<noteq> []"
  shows "\<exists>t'. tr_pop_state t = (None, t') \<and> tr_vals t' = hd (tr_snaps t) \<and>
           tr_snaps t' = tl (tr_snaps t) \<and> length (tr_heap t') = length (tr_heap t) \<and>
           tr_magic t' = tr_magic t + 1 \<and>
           tr_on_restore_listeners t' = tr_on_restore_listeners t \<and>
           (\<forall>r < length (tr_heap t). trail_last_magic (tr_heap t' ! r) = trail_last_magic (tr_heap t ! r))"
  using assms
  by (cases "tr_prior t")
     (auto simp: tr_pop_state_def tr_snaps_def tr_vals_def Let_def
           vals_backup_trail_restore last_magic_backup_trail_restore)

lemma tr_wf_pop:
  "tr_wf t \<Longrightarrow> tr_pop_state t = (None, t') \<Longrightarrow> tr_wf t'"
  by (cases "tr_prior t")
     (fastforce simp: tr_pop_state_def tr_wf_def Let_def last_magic_backup_trail_restore)+

lemma tr_restore_state_quiet:
  "tr_quiet t \<Longrightarrow> tr_restore_state t = tr_pop_state t"
  by (auto simp: tr_restore_state_def tr_pop_state_def tr_quiet_def Let_def
        tr_notify_restore_quiet split: list.splits)

lemma tr_restore_state_ok:
  assumes "tr_prior t \<noteq> []" and "tr_quiet t"
  shows "\<exists>t'. tr_restore_state t = (None, t') \<and> tr_vals t' = hd (tr_snaps t) \<and>
           tr_snaps t' = tl (tr_snaps t) \<and> length (tr_heap t') = length (tr_heap t) \<and>
           tr_magic t' = tr_magic t + 1 \<and> tr_quiet t' \<and>
           (\<forall>r < length (tr_heap t). trail_last_magic (tr_heap t' ! r) = trail_last_magic (tr_heap t ! r))"
  using tr_pop_state_ok [OF assms(1)] assms(2)
  by (auto simp: tr_restore_state_quiet tr_quiet_def)

lemma tr_wf_restore:
  "tr_wf t \<Longrightarrow> tr_quiet t \<Longrightarrow> tr_restore_state t = (None, t') \<Longrightarrow> tr_wf t'"
  by (simp add: tr_restore_state_quiet tr_wf_pop)

lemma tr_set_value_wf:
  assumes "tr_wf t" "r < length (tr_heap t)"
  shows "tr_wf (trail_set_value r x t)"
  using assms
  by (auto simp: tr_wf_def trail_set_value_def trail_trail_def Let_def nth_list_update)


lemma tr_set_value_frame:
  "length (tr_heap (trail_set_value r x t)) = length (tr_heap t)"
  "length (tr_prior (trail_set_value r x t)) = length (tr_prior t)"
  "tr_on_restore_listeners (trail_set_value r x t) = tr_on_restore_listeners t"
  "tr_magic (trail_set_value r x t) = tr_magic t"
  by (simp_all add: trail_set_value_def trail_trail_def Let_def)

lemma tr_wf_make_state_int: "tr_wf t \<Longrightarrow> tr_wf (snd (tr_make_state_int init t))"
  by (auto simp: tr_wf_def tr_make_state_int_def nth_append)

lemma tr_make_state_int_frame:
  "length (tr_heap (snd (tr_make_state_int init t))) = Suc (length (tr_heap t))"
  "tr_prior (snd (tr_make_state_int init t)) = tr_prior t"
  "tr_on_restore_listeners (snd (tr_make_state_int init t)) = tr_on_restore_listeners t"
  by (simp_all add: tr_make_state_int_def)




subsection \<open>The steps of a copier\<close>




lemma co_restore_state_quiet:
  "co_quiet c \<Longrightarrow> co_restore_state c = co_pop_state c"
  by (auto simp: co_restore_state_def co_pop_state_def co_quiet_def
        co_notify_restore_quiet split: list.splits)

lemma co_wf_make_state_int: "co_wf c \<Longrightarrow> co_wf (snd (co_make_state_int init c))"
  by (auto simp: co_wf_def co_make_state_int_def)



subsection \<open>A frame and what it keeps\<close>







subsection \<open>The trail between two calls of save_state or restore_state\<close>










subsection \<open>New managers\<close>

lemma tr_wf_init: "tr_wf Trailer_init"
  by (simp add: tr_wf_def Trailer_init_def)

lemma co_wf_init: "co_wf Copier_init"
  by (simp add: co_wf_def Copier_init_def)

lemma quiet_init: "quiet (Trailer Trailer_init)" "quiet (Copier Copier_init)"
  by (simp_all add: tr_quiet_def co_quiet_def Trailer_init_def Copier_init_def)

text \<open>
  The invariants hold of a new manager, and every call keeps them on a manager whose
  listeners are quiet.
\<close>

lemma wf_manager_do_op:
  assumes "wf_manager m" and "quiet m" and "refs_ok (heap_size m) [a]"
    and "do_op a m = (None, m')"
  shows "wf_manager m' \<and> quiet m' \<and> heap_size m \<le> heap_size m'"
proof (cases m)
  case (Trailer t)
  show ?thesis
  proof (cases a)
    case RestoreState
    with assms Trailer obtain t' where t': "tr_restore_state t = (None, t')" "m' = Trailer t'"
      by (auto split: prod.splits)
    with assms(2) Trailer have "tr_prior t \<noteq> []"
      by (auto simp: tr_restore_state_quiet tr_pop_state_def Let_def split: list.splits)
    from tr_restore_state_ok [OF this] t' tr_wf_restore [OF _ _ t'(1)] assms(1,2) Trailer
    show ?thesis by auto
  next
    case (MakeStateInt init)
    with assms Trailer have "m' = Trailer (snd (tr_make_state_int init t))"
      by (auto split: prod.splits)
    with assms Trailer show ?thesis
      by (simp add: tr_wf_make_state_int tr_make_state_int_frame tr_quiet_def)
  qed (use assms Trailer in \<open>auto simp: tr_set_value_wf tr_set_value_frame tr_wf_save
         tr_save_state_frame tr_wf_make_state_int tr_make_state_int_frame tr_quiet_def
         increment_def decrement_def split: prod.splits\<close>)
next
  case (Copier c)
  with assms show ?thesis
    by (cases a)
       (auto simp: co_wf_def co_quiet_def copy_set_value_def co_save_state_def
             co_restore_state_quiet co_pop_state_def co_make_state_int_def
             increment_def decrement_def less_Suc_eq split: list.splits prod.splits)
qed

section \<open>Examples of managers and closures\<close>








lemmas sm_defs =
  Trailer_init_def tr_get_level_def tr_save_state_def tr_pop_state_def tr_restore_state_def
  tr_make_state_int_def tr_on_restore_def trail_trail_def trail_set_value_def trail_value_def
  Copier_init_def co_get_level_def Backup_def co_save_state_def co_pop_state_def
  co_restore_state_def co_make_state_int_def co_on_restore_def copy_set_value_def
  copy_value_def increment_def decrement_def

section \<open>Claims on the state manager\<close>







section \<open>state.py: StateSparseSet\<close>

text \<open>
  \<open>class StateSparseSet\<close>. \<open>_size\<close>, \<open>_min\<close> and \<open>_max\<close> are StateInts (references
  into the manager's heap); \<open>_values\<close> and \<open>_indices\<close> are plain lists, which no
  restore touches. Every index the methods read is guarded to lie in \<open>0..n-1\<close>
  (\<open>contains\<close>, \<open>_internal_contains\<close>), so list reads are written with \<open>!\<close>.
\<close>

record sparse_set =
  ss_n :: int
  ss_ofs :: int
  ss_size_ref :: nat
  ss_min_ref :: nat
  ss_max_ref :: nat
  ss_values :: "int list"
  ss_indices :: "int list"

text \<open>\<open>StateSparseSet.__init__(sm, n, ofs)\<close>.\<close>

definition StateSparseSet :: "int \<Rightarrow> int \<Rightarrow> state_manager \<Rightarrow> sparse_set \<times> state_manager" where
  "StateSparseSet n ofs m =
     (case make_state_int n m of (size_ref, m1) \<Rightarrow>
      case make_state_int 0 m1 of (min_ref, m2) \<Rightarrow>
      case make_state_int (n - 1) m2 of (max_ref, m3) \<Rightarrow>
        (\<lparr>ss_n = n, ss_ofs = ofs, ss_size_ref = size_ref, ss_min_ref = min_ref,
          ss_max_ref = max_ref, ss_values = [0..n - 1], ss_indices = [0..n - 1]\<rparr>, m3))"

definition ss_size :: "sparse_set \<Rightarrow> state_manager \<Rightarrow> int" where
  "ss_size s m = state_value (ss_size_ref s) m"

definition ss_is_empty :: "sparse_set \<Rightarrow> state_manager \<Rightarrow> bool" where
  "ss_is_empty s m = (state_value (ss_size_ref s) m = 0)"

text \<open>\<open>StateSparseSet.min\<close> and \<open>max\<close>: ValueError on the empty set.\<close>

definition ss_min :: "sparse_set \<Rightarrow> state_manager \<Rightarrow> exn + int" where
  "ss_min s m =
     (if ss_is_empty s m then Inl ValueError
      else Inr (state_value (ss_min_ref s) m + ss_ofs s))"

definition ss_max :: "sparse_set \<Rightarrow> state_manager \<Rightarrow> exn + int" where
  "ss_max s m =
     (if ss_is_empty s m then Inl ValueError
      else Inr (state_value (ss_max_ref s) m + ss_ofs s))"

definition ss_internal_contains :: "sparse_set \<Rightarrow> state_manager \<Rightarrow> int \<Rightarrow> bool" where
  "ss_internal_contains s m val =
     (if val < 0 \<or> val \<ge> ss_n s then False
      else ss_indices s ! nat val < ss_size s m)"

definition ss_contains :: "sparse_set \<Rightarrow> state_manager \<Rightarrow> int \<Rightarrow> bool" where
  "ss_contains s m val0 =
     (let val = val0 - ss_ofs s in
      if val < 0 \<or> val \<ge> ss_n s then False
      else ss_indices s ! nat val < ss_size s m)"

text \<open>\<open>_exchange_positions(val1, val2)\<close>; the four statements in their order.\<close>

definition ss_exchange_positions :: "int \<Rightarrow> int \<Rightarrow> sparse_set \<Rightarrow> sparse_set" where
  "ss_exchange_positions v1 v2 s =
     (let i1 = ss_indices s ! nat v1;
          i2 = ss_indices s ! nat v2;
          values1 = (ss_values s)[nat i1 := v2];
          values2 = values1[nat i2 := v1];
          indices1 = (ss_indices s)[nat v1 := i2];
          indices2 = indices1[nat v2 := i1]
      in s\<lparr>ss_values := values2, ss_indices := indices2\<rparr>)"

text \<open>
  \<open>_update_max_val_removed\<close>: the new maximum is the first present value met going
  down from \<open>val - 1\<close> to the minimum; \<open>_update_min_val_removed\<close> goes up from
  \<open>val + 1\<close> to the maximum. Neither writes when the scan finds nothing.
\<close>

definition ss_update_max_val_removed :: "int \<Rightarrow> sparse_set \<Rightarrow> state_manager \<Rightarrow> state_manager" where
  "ss_update_max_val_removed val s m =
     (if \<not> ss_is_empty s m \<and> state_value (ss_max_ref s) m = val
      then (case find (ss_internal_contains s m) (rev [state_value (ss_min_ref s) m..val - 1]) of
              Some v \<Rightarrow> set_value (ss_max_ref s) v m
            | None \<Rightarrow> m)
      else m)"

definition ss_update_min_val_removed :: "int \<Rightarrow> sparse_set \<Rightarrow> state_manager \<Rightarrow> state_manager" where
  "ss_update_min_val_removed val s m =
     (if \<not> ss_is_empty s m \<and> state_value (ss_min_ref s) m = val
      then (case find (ss_internal_contains s m) [val + 1..state_value (ss_max_ref s) m] of
              Some v \<Rightarrow> set_value (ss_min_ref s) v m
            | None \<Rightarrow> m)
      else m)"

definition ss_update_bounds_val_removed :: "int \<Rightarrow> sparse_set \<Rightarrow> state_manager \<Rightarrow> state_manager" where
  "ss_update_bounds_val_removed val s m =
     ss_update_min_val_removed val s (ss_update_max_val_removed val s m)"

text \<open>\<open>remove(val)\<close>: the Boolean is the method's return value.\<close>

definition ss_remove :: "int \<Rightarrow> sparse_set \<times> state_manager \<Rightarrow> bool \<times> sparse_set \<times> state_manager" where
  "ss_remove val0 sm =
     (case sm of (s, m) \<Rightarrow>
        if \<not> ss_contains s m val0 then (False, (s, m))
        else
          (let val = val0 - ss_ofs s;
               sz = ss_size s m;
               s1 = ss_exchange_positions val (ss_values s ! nat (sz - 1)) s;
               m1 = decrement (ss_size_ref s) m;
               m2 = ss_update_bounds_val_removed val s1 m1
           in (True, (s1, m2))))"

text \<open>\<open>remove_all_but(v)\<close>: the assertion, then the eight writes in their order.\<close>

definition ss_remove_all_but ::
  "int \<Rightarrow> sparse_set \<times> state_manager \<Rightarrow> exn option \<times> sparse_set \<times> state_manager" where
  "ss_remove_all_but v0 sm =
     (case sm of (s, m) \<Rightarrow>
        if \<not> ss_contains s m v0 then (Some AssertionError, (s, m))
        else
          (let v = v0 - ss_ofs s;
               val = ss_values s ! 0;
               index = ss_indices s ! nat v;
               indices1 = (ss_indices s)[nat v := 0];
               values1 = (ss_values s)[0 := v];
               indices2 = indices1[nat val := index];
               values2 = values1[nat index := val];
               m1 = set_value (ss_min_ref s) v m;
               m2 = set_value (ss_max_ref s) v m1;
               m3 = set_value (ss_size_ref s) 1 m2
           in (None, (s\<lparr>ss_values := values2, ss_indices := indices2\<rparr>, m3))))"

definition ss_remove_all :: "sparse_set \<times> state_manager \<Rightarrow> sparse_set \<times> state_manager" where
  "ss_remove_all sm = (case sm of (s, m) \<Rightarrow> (s, set_value (ss_size_ref s) 0 m))"

text \<open>
  \<open>remove_below(value)\<close> and \<open>remove_above(value)\<close>. \<open>self.max()\<close> and \<open>self.min()\<close>
  raise on the empty set; the range of the \<open>for\<close> loop is computed once, before the
  first removal.
\<close>

definition ss_remove_below ::
  "int \<Rightarrow> sparse_set \<times> state_manager \<Rightarrow> exn option \<times> sparse_set \<times> state_manager" where
  "ss_remove_below val sm =
     (case sm of (s, m) \<Rightarrow>
        (case ss_max s m of
           Inl e \<Rightarrow> (Some e, (s, m))
         | Inr mx \<Rightarrow>
             if mx < val then (None, ss_remove_all (s, m))
             else (case ss_min s m of
                     Inl e \<Rightarrow> (Some e, (s, m))
                   | Inr mn \<Rightarrow> (None, fold (\<lambda>v sm'. snd (ss_remove v sm')) [mn..val - 1] (s, m)))))"

definition ss_remove_above ::
  "int \<Rightarrow> sparse_set \<times> state_manager \<Rightarrow> exn option \<times> sparse_set \<times> state_manager" where
  "ss_remove_above val sm =
     (case sm of (s, m) \<Rightarrow>
        (case ss_min s m of
           Inl e \<Rightarrow> (Some e, (s, m))
         | Inr mn \<Rightarrow>
             if mn > val then (None, ss_remove_all (s, m))
             else (case ss_max s m of
                     Inl e \<Rightarrow> (Some e, (s, m))
                   | Inr mx \<Rightarrow>
                       (None, fold (\<lambda>v sm'. snd (ss_remove v sm')) (rev [val + 1..mx]) (s, m)))))"

section \<open>Closures in sequence\<close>

text \<open>
  Statements run one after the other; an exception stops the sequence. \<open>cond\<close> is an
  \<open>if\<close> without \<open>else\<close> whose test reads the state it is reached in.
\<close>

definition skip :: "'x closure" where
  "skip s = (None, s)"

definition raise :: "exn \<Rightarrow> 'x closure" where
  "raise e s = (Some e, s)"

definition seq :: "'x closure \<Rightarrow> 'x closure \<Rightarrow> 'x closure" where
  "seq f g s = (case f s of (Some e, s') \<Rightarrow> (Some e, s') | (None, s') \<Rightarrow> g s')"

fun seqs :: "'x closure list \<Rightarrow> 'x closure" where
  "seqs [] = skip"
| "seqs (f # fs) = seq f (seqs fs)"

definition cond :: "('x \<times> state_manager \<Rightarrow> bool) \<Rightarrow> 'x closure \<Rightarrow> 'x closure" where
  "cond p f s = (if p s then f s else (None, s))"

section \<open>state.py: StateStack\<close>

text \<open>\<open>class StateStack\<close>: a reversible size and a list that only grows.\<close>

record 'a state_stack =
  stk_size_ref :: nat
  stk_stack :: "'a list"

definition StateStack :: "state_manager \<Rightarrow> 'a state_stack \<times> state_manager" where
  "StateStack m =
     (case make_state_int 0 m of (r, m1) \<Rightarrow> (\<lparr>stk_size_ref = r, stk_stack = []\<rparr>, m1))"

definition stk_push :: "'a \<Rightarrow> 'a state_stack \<times> state_manager \<Rightarrow> 'a state_stack \<times> state_manager" where
  "stk_push elem km =
     (case km of (k, m) \<Rightarrow>
        (let sz = state_value (stk_size_ref k) m;
             k1 = (if int (length (stk_stack k)) > sz
                   then k\<lparr>stk_stack := (stk_stack k)[nat sz := elem]\<rparr>
                   else k\<lparr>stk_stack := stk_stack k @ [elem]\<rparr>)
         in (k1, increment (stk_size_ref k) m)))"

definition stk_size :: "'a state_stack \<Rightarrow> state_manager \<Rightarrow> int" where
  "stk_size k m = state_value (stk_size_ref k) m"

text \<open>The elements \<open>get(0)\<close>, ..., \<open>get(size() - 1)\<close>, as \<open>_schedule_all\<close> reads them.\<close>

definition stk_elems :: "'a state_stack \<Rightarrow> state_manager \<Rightarrow> 'a list" where
  "stk_elems k m = take (nat (stk_size k m)) (stk_stack k)"

section \<open>The objects of a solver\<close>

text \<open>
  \<open>IntVarImpl\<close>: the domain (\<open>SparseSetDomain\<close> wraps one \<open>StateSparseSet\<close>) and the
  three stacks of constraints. \<open>AbstractConstraint\<close>: the reversible \<open>_active\<close> and the
  plain \<open>_scheduled\<close>. \<open>MiniCP\<close>: the propagation queue (left end at the head) and
  the stack \<open>_vars\<close>. Variables and constraints are referred to by their index in
  \<open>cp_vars\<close> and \<open>cp_constraints\<close>. What a constraint does when it propagates is
  not an object: the fix-point takes it as the function \<open>propagate\<close> from constraints to
  closures, and takes the fix-point listeners as a list of closures.
\<close>

record int_var_impl =
  iv_domain :: sparse_set
  iv_on_domain :: "nat state_stack"
  iv_on_fix :: "nat state_stack"
  iv_on_bound :: "nat state_stack"

record constraint =
  c_active :: nat
  c_scheduled :: bool

record cp_objs =
  cp_vars :: "int_var_impl list"
  cp_constraints :: "constraint list"
  cp_propagation_queue :: "nat list"
  cp_vars_stack :: "nat state_stack"

type_synonym cp_state = "cp_objs \<times> state_manager"

text \<open>\<open>factory.make_solver(by_copy)\<close>: \<open>MiniCP(Copier())\<close> or \<open>MiniCP(Trailer())\<close>.\<close>

definition MiniCP :: "state_manager \<Rightarrow> cp_state" where
  "MiniCP m =
     (case StateStack m of (k, m1) \<Rightarrow>
        (\<lparr>cp_vars = [], cp_constraints = [], cp_propagation_queue = [], cp_vars_stack = k\<rparr>, m1))"

definition make_solver :: "bool \<Rightarrow> cp_state" where
  "make_solver by_copy = (if by_copy then MiniCP (Copier Copier_init) else MiniCP (Trailer Trailer_init))"

section \<open>constraint.py: AbstractConstraint, and MiniCP.schedule\<close>

text \<open>
  \<open>AbstractConstraint.__init__\<close>: \<open>_active = make_state_ref(True)\<close>, \<open>_scheduled = False\<close>.
  The result is the reference of the new constraint.
\<close>

definition AbstractConstraint :: "cp_state \<Rightarrow> nat \<times> cp_state" where
  "AbstractConstraint s =
     (case s of (x, m) \<Rightarrow>
        (case make_state_int 1 m of (r, m1) \<Rightarrow>
           (length (cp_constraints x),
            (x\<lparr>cp_constraints := cp_constraints x @ [\<lparr>c_active = r, c_scheduled = False\<rparr>]\<rparr>, m1))))"

definition is_active :: "nat \<Rightarrow> cp_state \<Rightarrow> bool" where
  "is_active c s = (case s of (x, m) \<Rightarrow> state_value (c_active (cp_constraints x ! c)) m \<noteq> 0)"

definition set_active :: "nat \<Rightarrow> bool \<Rightarrow> cp_state \<Rightarrow> cp_state" where
  "set_active c b s =
     (case s of (x, m) \<Rightarrow> (x, set_value (c_active (cp_constraints x ! c)) (if b then 1 else 0) m))"

definition is_scheduled :: "nat \<Rightarrow> cp_state \<Rightarrow> bool" where
  "is_scheduled c s = c_scheduled (cp_constraints (fst s) ! c)"

definition set_scheduled :: "nat \<Rightarrow> bool \<Rightarrow> cp_state \<Rightarrow> cp_state" where
  "set_scheduled c b s =
     (case s of (x, m) \<Rightarrow>
        (x\<lparr>cp_constraints := (cp_constraints x)[c := (cp_constraints x ! c)\<lparr>c_scheduled := b\<rparr>]\<rparr>, m))"

text \<open>
  \<open>MiniCP.schedule(c)\<close>: \<open>if c.is_active() and not c.is_scheduled():
  c.set_scheduled(True); self._propagation_queue.append(c)\<close>.
\<close>

definition schedule :: "nat \<Rightarrow> cp_state \<Rightarrow> cp_state" where
  "schedule c s =
     (if is_active c s \<and> \<not> is_scheduled c s
      then (case set_scheduled c True s of (x, m) \<Rightarrow>
              (x\<lparr>cp_propagation_queue := cp_propagation_queue x @ [c]\<rparr>, m))
      else s)"

section \<open>Python floats\<close>

text \<open>
  \<open>a / b\<close> on two Python ints is true division: the result is the float (IEEE 754
  binary64) nearest to the exact quotient, ties to even. A finite float is modelled
  by the real number it denotes. The model covers the normal range (magnitudes
  from \<open>2^-1022\<close> up to \<open>2^1024\<close>), which the quotient of two 32-bit integers never
  leaves; infinities, NaN and subnormal numbers are outside it.

  \<open>float_exponent x\<close> is the \<open>e\<close> with \<open>2^e \<le> |x| < 2^(e+1)\<close>; a float has 53
  significant bits, so the floats near \<open>x\<close> are the multiples of \<open>2^(e-52)\<close>.
\<close>

fun bit_length :: "nat \<Rightarrow> nat" where
  "bit_length n = (if n = 0 then 0 else Suc (bit_length (n div 2)))"

declare bit_length.simps [simp del]

lemma bit_length_0 [simp]: "bit_length 0 = 0"
  by (simp add: bit_length.simps)

lemma bit_length_1 [simp]: "bit_length (Suc 0) = 1"
  by (simp add: bit_length.simps)

lemma bit_length_numeral [simp]:
  "bit_length (numeral k) = Suc (bit_length (numeral k div 2))"
  by (subst bit_length.simps) simp

definition pow2 :: "int \<Rightarrow> real" where
  "pow2 e = (if e \<ge> 0 then 2 ^ nat e else 1 / 2 ^ nat (- e))"

definition float_exponent :: "real \<Rightarrow> int" where
  "float_exponent x =
     (if \<bar>x\<bar> \<ge> 1 then int (bit_length (nat \<lfloor>\<bar>x\<bar>\<rfloor>)) - 1
      else - int (bit_length (nat (\<lceil>1 / \<bar>x\<bar>\<rceil> - 1))))"

definition round_half_even :: "real \<Rightarrow> int" where
  "round_half_even x =
     (let f = \<lfloor>x\<rfloor>; r = x - of_int f in
      if r < 1 / 2 then f
      else if r > 1 / 2 then f + 1
      else if even f then f else f + 1)"

definition round_double :: "real \<Rightarrow> real" where
  "round_double x =
     (if x = 0 then 0
      else (let u = pow2 (float_exponent x - 52) in of_int (round_half_even (x / u)) * u))"

text \<open>
  \<open>a / b\<close> on ints; \<open>q * b\<close>, \<open>q + 1\<close> and \<open>q - 1\<close> on a float and an int (the int is
  converted to a float first); \<open>int(q)\<close>, which truncates toward zero. A float and
  an int compare by their exact values.
\<close>

definition py_truediv :: "int \<Rightarrow> int \<Rightarrow> exn + real" where
  "py_truediv a b =
     (if b = 0 then Inl ZeroDivisionError else Inr (round_double (of_int a / of_int b)))"

definition float_of_int :: "int \<Rightarrow> real" where
  "float_of_int n = round_double (of_int n)"

definition float_mul_int :: "real \<Rightarrow> int \<Rightarrow> real" where
  "float_mul_int q b = round_double (q * float_of_int b)"

definition float_add_int :: "real \<Rightarrow> int \<Rightarrow> real" where
  "float_add_int q b = round_double (q + float_of_int b)"

definition py_int :: "real \<Rightarrow> int" where
  "py_int q = (if q \<ge> 0 then \<lfloor>q\<rfloor> else \<lceil>q\<rceil>)"

text \<open>\<open>IntVarViewMul._floor_div(a, b)\<close> and \<open>IntVarViewMul._ceil_div(a, b)\<close>.\<close>

definition floor_div :: "int \<Rightarrow> int \<Rightarrow> exn + int" where
  "floor_div a b =
     (case py_truediv a b of
        Inl e \<Rightarrow> Inl e
      | Inr q \<Rightarrow>
          if a < 0 \<and> float_mul_int q b \<noteq> of_int a then Inr (py_int (float_add_int q (- 1)))
          else Inr (py_int q))"

definition ceil_div :: "int \<Rightarrow> int \<Rightarrow> exn + int" where
  "ceil_div a b =
     (case py_truediv a b of
        Inl e \<Rightarrow> Inl e
      | Inr q \<Rightarrow>
          if a > 0 \<and> float_mul_int q b \<noteq> of_int a then Inr (py_int (float_add_int q 1))
          else Inr (py_int q))"

section \<open>domain.py: SparseSetDomain and the listener protocol\<close>

text \<open>
  \<open>with_val f k\<close> evaluates an expression that may raise and passes its value on.
\<close>

definition with_val :: "('x \<times> state_manager \<Rightarrow> exn + 'a) \<Rightarrow> ('a \<Rightarrow> 'x closure) \<Rightarrow> 'x closure" where
  "with_val f k s = (case f s of Inl e \<Rightarrow> (Some e, s) | Inr v \<Rightarrow> k v s)"

text \<open>\<open>class DomainListener\<close>: the five callbacks.\<close>

record domain_listener =
  dl_empty :: "cp_objs closure"
  dl_fix :: "cp_objs closure"
  dl_change :: "cp_objs closure"
  dl_change_min :: "cp_objs closure"
  dl_change_max :: "cp_objs closure"

text \<open>The domain of variable \<open>i\<close>, and the state with that domain replaced.\<close>

definition var_domain :: "nat \<Rightarrow> cp_state \<Rightarrow> sparse_set" where
  "var_domain i s = iv_domain (cp_vars (fst s) ! i)"

definition put_domain :: "nat \<Rightarrow> sparse_set \<times> state_manager \<Rightarrow> cp_objs \<Rightarrow> cp_state" where
  "put_domain i dm x =
     (case dm of (d, m) \<Rightarrow> (x\<lparr>cp_vars := (cp_vars x)[i := (cp_vars x ! i)\<lparr>iv_domain := d\<rparr>]\<rparr>, m))"

definition ssd_min :: "nat \<Rightarrow> cp_state \<Rightarrow> exn + int" where
  "ssd_min i s = ss_min (var_domain i s) (snd s)"

definition ssd_max :: "nat \<Rightarrow> cp_state \<Rightarrow> exn + int" where
  "ssd_max i s = ss_max (var_domain i s) (snd s)"

definition ssd_size :: "nat \<Rightarrow> cp_state \<Rightarrow> int" where
  "ssd_size i s = ss_size (var_domain i s) (snd s)"

definition ssd_contains :: "nat \<Rightarrow> int \<Rightarrow> cp_state \<Rightarrow> bool" where
  "ssd_contains i v s = ss_contains (var_domain i s) (snd s) v"

definition ssd_is_singleton :: "nat \<Rightarrow> cp_state \<Rightarrow> bool" where
  "ssd_is_singleton i s = (ssd_size i s = 1)"

text \<open>\<open>SparseSetDomain.remove(v, l)\<close>.\<close>

definition ssd_remove :: "nat \<Rightarrow> int \<Rightarrow> domain_listener \<Rightarrow> cp_objs closure" where
  "ssd_remove i v l s =
     (if ssd_contains i v s
      then with_val (ssd_max i) (\<lambda>mx.
           with_val (ssd_min i) (\<lambda>mn.
             (let max_changed = (mx = v); min_changed = (mn = v) in
              seqs [(\<lambda>s. (None, put_domain i (snd (ss_remove v (var_domain i s, snd s))) (fst s))),
                    cond (\<lambda>s. ssd_size i s = 0) (dl_empty l),
                    dl_change l,
                    cond (\<lambda>s. max_changed) (dl_change_max l),
                    cond (\<lambda>s. min_changed) (dl_change_min l),
                    cond (\<lambda>s. ssd_size i s = 1) (dl_fix l)]))) s
      else (None, s))"

text \<open>\<open>SparseSetDomain.remove_all_but(v, l)\<close>.\<close>

definition ssd_remove_all_but :: "nat \<Rightarrow> int \<Rightarrow> domain_listener \<Rightarrow> cp_objs closure" where
  "ssd_remove_all_but i v l s =
     (if ssd_contains i v s
      then (if ssd_size i s \<noteq> 1
            then with_val (ssd_max i) (\<lambda>mx.
                 with_val (ssd_min i) (\<lambda>mn.
                   (let max_changed = (mx \<noteq> v); min_changed = (mn \<noteq> v) in
                    seqs [(\<lambda>s. case ss_remove_all_but v (var_domain i s, snd s) of
                                 (e, dm) \<Rightarrow> (e, put_domain i dm (fst s))),
                          cond (\<lambda>s. ssd_size i s = 0) (dl_empty l),
                          dl_fix l,
                          dl_change l,
                          cond (\<lambda>s. max_changed) (dl_change_max l),
                          cond (\<lambda>s. min_changed) (dl_change_min l)]))) s
            else (None, s))
      else seqs [(\<lambda>s. (None, put_domain i (ss_remove_all (var_domain i s, snd s)) (fst s))),
                 dl_empty l] s)"

text \<open>\<open>SparseSetDomain.remove_below(value, l)\<close> and \<open>remove_above(value, l)\<close>.\<close>

definition ssd_remove_below :: "nat \<Rightarrow> int \<Rightarrow> domain_listener \<Rightarrow> cp_objs closure" where
  "ssd_remove_below i val l =
     with_val (ssd_min i) (\<lambda>mn.
       cond (\<lambda>s. mn < val)
         (seqs [(\<lambda>s. case ss_remove_below val (var_domain i s, snd s) of
                       (e, dm) \<Rightarrow> (e, put_domain i dm (fst s))),
                (\<lambda>s. if ssd_size i s = 0 then dl_empty l s
                      else if ssd_size i s = 1
                      then seqs [dl_fix l, dl_change_min l, dl_change l] s
                      else seqs [dl_change_min l, dl_change l] s)]))"

definition ssd_remove_above :: "nat \<Rightarrow> int \<Rightarrow> domain_listener \<Rightarrow> cp_objs closure" where
  "ssd_remove_above i val l =
     with_val (ssd_max i) (\<lambda>mx.
       cond (\<lambda>s. mx > val)
         (seqs [(\<lambda>s. case ss_remove_above val (var_domain i s, snd s) of
                       (e, dm) \<Rightarrow> (e, put_domain i dm (fst s))),
                (\<lambda>s. if ssd_size i s = 0 then dl_empty l s
                      else if ssd_size i s = 1
                      then seqs [dl_fix l, dl_change_max l, dl_change l] s
                      else seqs [dl_change_max l, dl_change l] s)]))"

section \<open>int_var.py: IntVarImpl\<close>

text \<open>
  \<open>_DomainListener\<close>: \<open>empty\<close> raises Inconsistency; the others schedule every
  constraint of one of the variable's stacks, \<open>get(0)\<close> first.
\<close>

definition schedule_all :: "(int_var_impl \<Rightarrow> nat state_stack) \<Rightarrow> nat \<Rightarrow> cp_objs closure" where
  "schedule_all stack i s =
     (None, fold schedule (stk_elems (stack (cp_vars (fst s) ! i)) (snd s)) s)"

definition DomainListener :: "nat \<Rightarrow> domain_listener" where
  "DomainListener i =
     \<lparr>dl_empty = raise InconsistencyException,
      dl_fix = schedule_all iv_on_fix i,
      dl_change = schedule_all iv_on_domain i,
      dl_change_min = schedule_all iv_on_bound i,
      dl_change_max = schedule_all iv_on_bound i\<rparr>"

definition MAX_VALUE :: int where
  "MAX_VALUE = 2147483647"

definition MIN_VALUE :: int where
  "MIN_VALUE = - 2147483648"

text \<open>
  \<open>IntVarImpl.__init__(cp, min, max, n, values)\<close>; an argument left out is \<open>None\<close>.
  The result is the reference of the new variable.
\<close>

definition IntVarImpl ::
  "int option \<Rightarrow> int option \<Rightarrow> int option \<Rightarrow> int set option \<Rightarrow> cp_state
   \<Rightarrow> (exn + nat) \<times> cp_state" where
  "IntVarImpl mn mx n vals s =
     (if vals \<noteq> None \<and> n = None \<and> mn = None \<and> mx = None
      then (Inl NotImplementedError, s)
      else
        (case (if n \<noteq> None \<and> mn = None \<and> mx = None \<and> vals = None
               then Some (0, the n - 1)
               else if mn \<noteq> None \<and> mx \<noteq> None \<and> n = None \<and> vals = None
               then Some (the mn, the mx)
               else None) of
           None \<Rightarrow> (Inl ValueError, s)
         | Some (lo, hi) \<Rightarrow>
             if lo = MIN_VALUE \<or> hi = MAX_VALUE then (Inl ValueError, s)
             else if lo > hi then (Inl ValueError, s)
             else
               (case s of (x, m) \<Rightarrow>
                case StateSparseSet (hi - lo + 1) lo m of (d, m1) \<Rightarrow>
                case StateStack m1 of (on_domain, m2) \<Rightarrow>
                case StateStack m2 of (on_fix, m3) \<Rightarrow>
                case StateStack m3 of (on_bound, m4) \<Rightarrow>
                  (Inr (length (cp_vars x)),
                   (x\<lparr>cp_vars := cp_vars x @
                        [\<lparr>iv_domain = d, iv_on_domain = on_domain, iv_on_fix = on_fix,
                          iv_on_bound = on_bound\<rparr>]\<rparr>, m4)))))"

section \<open>int_var.py: variables and views\<close>

text \<open>
  An \<open>IntVar\<close> is an \<open>IntVarImpl\<close> (by reference) or a view on another variable:
  \<open>IntVarViewMul(x, a)\<close>, \<open>IntVarViewOffset(x, o)\<close>, \<open>IntVarViewOpposite(x)\<close>,
  \<open>BoolVarImpl(binary_var)\<close>. A view has no state of its own. The methods follow the
  classes, one equation per class.
\<close>

datatype ivar =
    VarImpl nat
  | ViewMul ivar int
  | ViewOffset ivar int
  | ViewOpposite ivar
  | BoolVar ivar

fun var_min :: "ivar \<Rightarrow> cp_state \<Rightarrow> exn + int"
  and var_max :: "ivar \<Rightarrow> cp_state \<Rightarrow> exn + int" where
  "var_min (VarImpl i) s = ssd_min i s"
| "var_min (ViewMul x a) s =
     (if a \<ge> 0 then map_sum id (\<lambda>v. a * v) (var_min x s)
      else map_sum id (\<lambda>v. a * v) (var_max x s))"
| "var_min (ViewOffset x ofs) s = map_sum id (\<lambda>v. v + ofs) (var_min x s)"
| "var_min (ViewOpposite x) s = map_sum id (\<lambda>v. - v) (var_max x s)"
| "var_min (BoolVar x) s = var_min x s"
| "var_max (VarImpl i) s = ssd_max i s"
| "var_max (ViewMul x a) s =
     (if a \<ge> 0 then map_sum id (\<lambda>v. a * v) (var_max x s)
      else map_sum id (\<lambda>v. a * v) (var_min x s))"
| "var_max (ViewOffset x ofs) s = map_sum id (\<lambda>v. v + ofs) (var_max x s)"
| "var_max (ViewOpposite x) s = map_sum id (\<lambda>v. - v) (var_min x s)"
| "var_max (BoolVar x) s = var_max x s"

fun var_size :: "ivar \<Rightarrow> cp_state \<Rightarrow> int" where
  "var_size (VarImpl i) s = ssd_size i s"
| "var_size (ViewMul x a) s = var_size x s"
| "var_size (ViewOffset x ofs) s = var_size x s"
| "var_size (ViewOpposite x) s = var_size x s"
| "var_size (BoolVar x) s = var_size x s"

fun var_is_fixed :: "ivar \<Rightarrow> cp_state \<Rightarrow> bool" where
  "var_is_fixed (VarImpl i) s = ssd_is_singleton i s"
| "var_is_fixed (ViewMul x a) s = var_is_fixed x s"
| "var_is_fixed (ViewOffset x ofs) s = var_is_fixed x s"
| "var_is_fixed (ViewOpposite x) s = var_is_fixed x s"
| "var_is_fixed (BoolVar x) s = var_is_fixed x s"

text \<open>
  \<open>int(v / a)\<close>, as \<open>IntVarViewMul.contains\<close>, \<open>remove\<close> and \<open>fix\<close> compute it, and
  \<open>v % a\<close>, which raises when \<open>a\<close> is 0 and otherwise has the sign of \<open>a\<close>, as
  \<open>mod\<close> has.
\<close>

definition int_truediv :: "int \<Rightarrow> int \<Rightarrow> exn + int" where
  "int_truediv v a = map_sum id py_int (py_truediv v a)"

definition py_mod :: "int \<Rightarrow> int \<Rightarrow> exn + int" where
  "py_mod v a = (if a = 0 then Inl ZeroDivisionError else Inr (v mod a))"

fun var_contains :: "ivar \<Rightarrow> int \<Rightarrow> cp_state \<Rightarrow> exn + bool" where
  "var_contains (VarImpl i) v s = Inr (ssd_contains i v s)"
| "var_contains (ViewMul x a) v s =
     (case py_mod v a of
        Inl e \<Rightarrow> Inl e
      | Inr r \<Rightarrow>
          if r \<noteq> 0 then Inr False
          else (case int_truediv v a of Inl e \<Rightarrow> Inl e | Inr q \<Rightarrow> var_contains x q s))"
| "var_contains (ViewOffset x ofs) v s = var_contains x (v - ofs) s"
| "var_contains (ViewOpposite x) v s = var_contains x (- v) s"
| "var_contains (BoolVar x) v s = var_contains x v s"

text \<open>
  The four mutators. \<open>var_remove_below\<close> and \<open>var_remove_above\<close> call each other
  through the opposite view.
\<close>

fun var_remove :: "ivar \<Rightarrow> int \<Rightarrow> cp_objs closure" where
  "var_remove (VarImpl i) v = ssd_remove i v (DomainListener i)"
| "var_remove (ViewMul x a) v =
     with_val (\<lambda>s. py_mod v a) (\<lambda>r.
       if r = 0 then with_val (\<lambda>s. int_truediv v a) (\<lambda>q. var_remove x q) else skip)"
| "var_remove (ViewOffset x ofs) v = var_remove x (v - ofs)"
| "var_remove (ViewOpposite x) v = var_remove x (- v)"
| "var_remove (BoolVar x) v = var_remove x v"

fun var_fix :: "ivar \<Rightarrow> int \<Rightarrow> cp_objs closure" where
  "var_fix (VarImpl i) v = ssd_remove_all_but i v (DomainListener i)"
| "var_fix (ViewMul x a) v =
     with_val (\<lambda>s. py_mod v a) (\<lambda>r.
       if r = 0 then with_val (\<lambda>s. int_truediv v a) (\<lambda>q. var_fix x q)
       else raise InconsistencyException)"
| "var_fix (ViewOffset x ofs) v = var_fix x (v - ofs)"
| "var_fix (ViewOpposite x) v = var_fix x (- v)"
| "var_fix (BoolVar x) v = var_fix x v"

fun var_remove_below :: "ivar \<Rightarrow> int \<Rightarrow> cp_objs closure"
  and var_remove_above :: "ivar \<Rightarrow> int \<Rightarrow> cp_objs closure" where
  "var_remove_below (VarImpl i) v = ssd_remove_below i v (DomainListener i)"
| "var_remove_below (ViewMul x a) v =
     with_val (\<lambda>s. ceil_div v a) (\<lambda>q. var_remove_below x q)"
| "var_remove_below (ViewOffset x ofs) v = var_remove_below x (v - ofs)"
| "var_remove_below (ViewOpposite x) v = var_remove_above x (- v)"
| "var_remove_below (BoolVar x) v = var_remove_below x v"
| "var_remove_above (VarImpl i) v = ssd_remove_above i v (DomainListener i)"
| "var_remove_above (ViewMul x a) v =
     with_val (\<lambda>s. floor_div v a) (\<lambda>q. var_remove_above x q)"
| "var_remove_above (ViewOffset x ofs) v = var_remove_above x (v - ofs)"
| "var_remove_above (ViewOpposite x) v = var_remove_below x (- v)"
| "var_remove_above (BoolVar x) v = var_remove_above x v"

text \<open>
  \<open>BoolVarImpl.is_true\<close>, \<open>is_false\<close> and \<open>fix(b)\<close>; \<open>fix(v=...)\<close> is \<open>var_fix\<close>.
\<close>

definition is_true :: "ivar \<Rightarrow> cp_state \<Rightarrow> exn + bool" where
  "is_true b s = map_sum id (\<lambda>v. v = 1) (var_min b s)"

definition is_false :: "ivar \<Rightarrow> cp_state \<Rightarrow> exn + bool" where
  "is_false b s = map_sum id (\<lambda>v. v = 0) (var_max b s)"

definition bool_fix :: "ivar \<Rightarrow> bool \<Rightarrow> cp_objs closure" where
  "bool_fix b t = (if t then var_fix b 1 else var_fix b 0)"

text \<open>
  Subscriptions. Every view forwards them to the variable it wraps; \<open>IntVarImpl\<close>
  pushes the constraint on one of its stacks.
\<close>

fun var_impl :: "ivar \<Rightarrow> nat" where
  "var_impl (VarImpl i) = i"
| "var_impl (ViewMul x a) = var_impl x"
| "var_impl (ViewOffset x ofs) = var_impl x"
| "var_impl (ViewOpposite x) = var_impl x"
| "var_impl (BoolVar x) = var_impl x"

definition propagate_on_domain_change :: "ivar \<Rightarrow> nat \<Rightarrow> cp_state \<Rightarrow> cp_state" where
  "propagate_on_domain_change y c s =
     (case s of (x, m) \<Rightarrow>
        (let i = var_impl y in
         case stk_push c (iv_on_domain (cp_vars x ! i), m) of (k, m1) \<Rightarrow>
           (x\<lparr>cp_vars := (cp_vars x)[i := (cp_vars x ! i)\<lparr>iv_on_domain := k\<rparr>]\<rparr>, m1)))"

definition propagate_on_fix :: "ivar \<Rightarrow> nat \<Rightarrow> cp_state \<Rightarrow> cp_state" where
  "propagate_on_fix y c s =
     (case s of (x, m) \<Rightarrow>
        (let i = var_impl y in
         case stk_push c (iv_on_fix (cp_vars x ! i), m) of (k, m1) \<Rightarrow>
           (x\<lparr>cp_vars := (cp_vars x)[i := (cp_vars x ! i)\<lparr>iv_on_fix := k\<rparr>]\<rparr>, m1)))"

definition propagate_on_bound_change :: "ivar \<Rightarrow> nat \<Rightarrow> cp_state \<Rightarrow> cp_state" where
  "propagate_on_bound_change y c s =
     (case s of (x, m) \<Rightarrow>
        (let i = var_impl y in
         case stk_push c (iv_on_bound (cp_vars x ! i), m) of (k, m1) \<Rightarrow>
           (x\<lparr>cp_vars := (cp_vars x)[i := (cp_vars x ! i)\<lparr>iv_on_bound := k\<rparr>]\<rparr>, m1)))"

text \<open>
  \<open>when_fixed(f)\<close>, \<open>when_bound_change(f)\<close>, \<open>when_domain_change(f)\<close>: a new
  \<open>ConstraintClosure(cp, f)\<close> is posted without a fix-point (its \<open>post\<close> does nothing)
  and pushed on the stack. The result is the reference of the new constraint, whose
  \<open>propagate\<close> is \<open>f\<close>.
\<close>

definition when_fixed :: "ivar \<Rightarrow> cp_state \<Rightarrow> nat \<times> cp_state" where
  "when_fixed y s = (case AbstractConstraint s of (c, s1) \<Rightarrow> (c, propagate_on_fix y c s1))"

definition when_bound_change :: "ivar \<Rightarrow> cp_state \<Rightarrow> nat \<times> cp_state" where
  "when_bound_change y s =
     (case AbstractConstraint s of (c, s1) \<Rightarrow> (c, propagate_on_bound_change y c s1))"

definition when_domain_change :: "ivar \<Rightarrow> cp_state \<Rightarrow> nat \<times> cp_state" where
  "when_domain_change y s =
     (case AbstractConstraint s of (c, s1) \<Rightarrow> (c, propagate_on_domain_change y c s1))"

section \<open>factory.py: variables and views\<close>

definition make_int_var ::
  "int option \<Rightarrow> int option \<Rightarrow> int option \<Rightarrow> int set option \<Rightarrow> cp_state
   \<Rightarrow> (exn + ivar) \<times> cp_state" where
  "make_int_var mn mx sz vals s =
     (case IntVarImpl mn mx sz vals s of (r, s1) \<Rightarrow> (map_sum id VarImpl r, s1))"

text \<open>\<open>make_bool_var(cp)\<close>: \<open>BoolVarImpl(cp=cp)\<close>, which wraps \<open>IntVarImpl(cp, 0, 1)\<close>.\<close>

definition make_bool_var :: "cp_state \<Rightarrow> (exn + ivar) \<times> cp_state" where
  "make_bool_var s =
     (case IntVarImpl (Some 0) (Some 1) None None s of
        (r, s1) \<Rightarrow> (map_sum id (\<lambda>i. BoolVar (VarImpl i)) r, s1))"

text \<open>
  \<open>IntVarViewMul.__init__(x, a)\<close> and \<open>IntVarViewOffset.__init__(x, offset)\<close>: the
  overflow checks on the bounds of \<open>x\<close>.
\<close>

definition IntVarViewMul :: "ivar \<Rightarrow> int \<Rightarrow> cp_state \<Rightarrow> exn + ivar" where
  "IntVarViewMul x a s =
     (case var_min x s of
        Inl e \<Rightarrow> Inl e
      | Inr mn \<Rightarrow>
          if (1 + mn) * a \<le> MIN_VALUE then Inl OverflowError
          else (case var_max x s of
                  Inl e \<Rightarrow> Inl e
                | Inr mx \<Rightarrow>
                    if (1 + mx) * a \<ge> MAX_VALUE then Inl OverflowError
                    else Inr (ViewMul x a)))"

definition IntVarViewOffset :: "ivar \<Rightarrow> int \<Rightarrow> cp_state \<Rightarrow> exn + ivar" where
  "IntVarViewOffset x ofs s =
     (case var_min x s of
        Inl e \<Rightarrow> Inl e
      | Inr mn \<Rightarrow>
          if 0 + mn + ofs \<le> MIN_VALUE then Inl OverflowError
          else (case var_max x s of
                  Inl e \<Rightarrow> Inl e
                | Inr mx \<Rightarrow>
                    if 0 + mx + ofs \<ge> MAX_VALUE then Inl OverflowError
                    else Inr (ViewOffset x ofs)))"

text \<open>\<open>minus(x)\<close> and \<open>minus(x, v)\<close>, \<open>plus(x, v)\<close>, \<open>mul(x, a)\<close>.\<close>

definition minus_var :: "ivar \<Rightarrow> int option \<Rightarrow> cp_state \<Rightarrow> exn + ivar" where
  "minus_var x v s =
     (case v of
        None \<Rightarrow> Inr (ViewOpposite x)
      | Some v' \<Rightarrow> if v' = 0 then Inr x else IntVarViewOffset x (- v') s)"

definition plus_var :: "ivar \<Rightarrow> int \<Rightarrow> cp_state \<Rightarrow> exn + ivar" where
  "plus_var x v s = (if v = 0 then Inr x else IntVarViewOffset x v s)"

definition mul :: "ivar \<Rightarrow> int \<Rightarrow> cp_state \<Rightarrow> (exn + ivar) \<times> cp_state" where
  "mul x a s =
     (if a = 0 then make_int_var (Some 0) (Some 0) None None s
      else if a = 1 then (Inr x, s)
      else if a < 0 then (map_sum id ViewOpposite (IntVarViewMul x (- a) s), s)
      else (IntVarViewMul x a s, s))"

section \<open>constraint.py: IsEqual and IsLessOrEqual\<close>

text \<open>
  A reified constraint holds its own reference (for \<open>set_active\<close>), the Boolean
  variable, the variable and the constant. \<open>__init__\<close> only runs
  \<open>AbstractConstraint.__init__\<close>.
\<close>

record reified =
  re_c :: nat
  re_b :: ivar
  re_x :: ivar
  re_v :: int

definition Reified :: "ivar \<Rightarrow> ivar \<Rightarrow> int \<Rightarrow> cp_state \<Rightarrow> reified \<times> cp_state" where
  "Reified b x v s =
     (case AbstractConstraint s of (c, s1) \<Rightarrow> (\<lparr>re_c = c, re_b = b, re_x = x, re_v = v\<rparr>, s1))"

text \<open>\<open>IsEqual.propagate\<close>: every branch ends with \<open>self.set_active(False)\<close>.\<close>

definition IsEqual_propagate :: "reified \<Rightarrow> cp_objs closure" where
  "IsEqual_propagate k =
     with_val (is_true (re_b k)) (\<lambda>t.
       if t then seq (var_fix (re_x k) (re_v k)) (\<lambda>s. (None, set_active (re_c k) False s))
       else with_val (is_false (re_b k)) (\<lambda>f.
         if f then seq (var_remove (re_x k) (re_v k)) (\<lambda>s. (None, set_active (re_c k) False s))
         else with_val (var_contains (re_x k) (re_v k)) (\<lambda>c.
           if \<not> c then seq (bool_fix (re_b k) False) (\<lambda>s. (None, set_active (re_c k) False s))
           else cond (var_is_fixed (re_x k))
                  (seq (bool_fix (re_b k) True) (\<lambda>s. (None, set_active (re_c k) False s))))))"

text \<open>
  \<open>IsEqual.post\<close>: \<open>self.propagate()\<close>, then the two subscriptions when the
  constraint is still active.
\<close>

definition IsEqual_post :: "reified \<Rightarrow> cp_objs closure" where
  "IsEqual_post k =
     seq (IsEqual_propagate k)
       (\<lambda>s. if is_active (re_c k) s
             then (None, propagate_on_fix (re_b k) (re_c k)
                           (propagate_on_domain_change (re_x k) (re_c k) s))
             else (None, s))"

text \<open>
  \<open>IsLessOrEqual.post\<close> and the two closures it registers. No branch calls
  \<open>set_active\<close>; the source only says so in comments. The result of \<open>post\<close> lists the
  closure constraints it created, each with its \<open>propagate\<close>.
\<close>

definition IsLessOrEqual_callback :: "reified \<Rightarrow> cp_objs closure" where
  "IsLessOrEqual_callback k =
     with_val (is_true (re_b k)) (\<lambda>t.
       if t then var_remove_above (re_x k) (re_v k)
       else var_remove_below (re_x k) (re_v k + 1))"

definition IsLessOrEqual_callback2 :: "reified \<Rightarrow> cp_objs closure" where
  "IsLessOrEqual_callback2 k =
     with_val (var_max (re_x k)) (\<lambda>mx.
       if mx \<le> re_v k then var_fix (re_b k) 1
       else with_val (var_min (re_x k)) (\<lambda>mn.
         if mn > re_v k then var_fix (re_b k) 0 else skip))"

definition IsLessOrEqual_post ::
  "reified \<Rightarrow> cp_state \<Rightarrow> (exn option \<times> (nat \<times> cp_objs closure) list) \<times> cp_state" where
  "IsLessOrEqual_post k s =
     (let only = (\<lambda>f. case f s of (e, s1) \<Rightarrow> ((e, []), s1)) in
      case is_true (re_b k) s of
        Inl e \<Rightarrow> ((Some e, []), s)
      | Inr t \<Rightarrow>
        if t then only (var_remove_above (re_x k) (re_v k))
        else
          (case is_false (re_b k) s of
             Inl e \<Rightarrow> ((Some e, []), s)
           | Inr f \<Rightarrow>
             if f then only (var_remove_below (re_x k) (re_v k + 1))
             else
               (case var_max (re_x k) s of
                  Inl e \<Rightarrow> ((Some e, []), s)
                | Inr mx \<Rightarrow>
                  if mx \<le> re_v k then only (var_fix (re_b k) 1)
                  else
                    (case var_min (re_x k) s of
                       Inl e \<Rightarrow> ((Some e, []), s)
                     | Inr mn \<Rightarrow>
                       if mn > re_v k then only (var_fix (re_b k) 0)
                       else
                         (case when_fixed (re_b k) s of (c1, s1) \<Rightarrow>
                          case when_bound_change (re_x k) s1 of (c2, s2) \<Rightarrow>
                            ((None, [(c1, IsLessOrEqual_callback k),
                                     (c2, IsLessOrEqual_callback2 k)]), s2))))))"

section \<open>constraint.py and factory.py: Sum\<close>

text \<open>
  \<open>Sum.__init__(x, y, v)\<close>: the fields of the new constraint. \<open>x[0]\<close> raises
  IndexError on an empty list; the term \<open>-y\<close> or the constant \<open>-v\<close> is appended. No
  statement reads a bound of a variable. \<open>factory.Sum\<close> only calls the constructor.
\<close>

record sum_constraint =
  sum_c :: nat
  sum_x :: "ivar list"
  sum_n :: nat
  sum_min :: "int list"
  sum_max :: "int list"
  sum_n_fixed :: nat
  sum_sum_fixed :: nat
  sum_fixed :: "nat list"

definition Sum_init ::
  "ivar list \<Rightarrow> ivar option \<Rightarrow> int option \<Rightarrow> cp_state \<Rightarrow> (exn + sum_constraint) \<times> cp_state" where
  "Sum_init xs y v s =
     (if xs = [] then (Inl IndexError, s)
      else
        (case AbstractConstraint s of (c, s1) \<Rightarrow>
         case (if y \<noteq> None \<and> v = None then (minus_var (the y) None s1, s1)
               else if v \<noteq> None \<and> y = None
               then make_int_var (Some (- the v)) (Some (- the v)) None None s1
               else (Inl ValueError, s1)) of
           (Inl e, s2) \<Rightarrow> (Inl e, s2)
         | (Inr t, (x2, m2)) \<Rightarrow>
             (let xs' = xs @ [t] in
              case make_state_int 0 m2 of (r_n_fixed, m3) \<Rightarrow>
              case make_state_int 0 m3 of (r_sum_fixed, m4) \<Rightarrow>
                (Inr \<lparr>sum_c = c, sum_x = xs', sum_n = length xs',
                      sum_min = replicate (length xs') 0, sum_max = replicate (length xs') 0,
                      sum_n_fixed = r_n_fixed, sum_sum_fixed = r_sum_fixed,
                      sum_fixed = [0..<length xs']\<rparr>, (x2, m4)))))"

definition Sum :: "ivar list \<Rightarrow> ivar option \<Rightarrow> int option \<Rightarrow> cp_state \<Rightarrow> (exn + sum_constraint) \<times> cp_state" where
  "Sum xs y v s = Sum_init xs y v s"

text \<open>
  \<open>factory.sum_var(x)\<close>, the sibling of \<open>factory.Sum\<close>, sums the bounds and raises
  OverflowError outside the 32-bit range, before it makes the variable and posts
  \<open>Sum(x, s)\<close>. The posting is the parameter \<open>post_sum\<close>.
\<close>

fun sum_bounds :: "ivar list \<Rightarrow> cp_state \<Rightarrow> int \<times> int \<Rightarrow> exn + int \<times> int" where
  "sum_bounds [] s acc = Inr acc"
| "sum_bounds (x # xs) s (lo, hi) =
     (case var_min x s of
        Inl e \<Rightarrow> Inl e
      | Inr mn \<Rightarrow>
          (case var_max x s of
             Inl e \<Rightarrow> Inl e
           | Inr mx \<Rightarrow> sum_bounds xs s (lo + mn, hi + mx)))"

definition sum_var ::
  "(ivar list \<Rightarrow> ivar \<Rightarrow> cp_objs closure) \<Rightarrow> ivar list \<Rightarrow> cp_state \<Rightarrow> (exn + ivar) \<times> cp_state" where
  "sum_var post_sum xs s =
     (case sum_bounds xs s (0, 0) of
        Inl e \<Rightarrow> (Inl e, s)
      | Inr (lo, hi) \<Rightarrow>
          if lo < MIN_VALUE \<or> hi > MAX_VALUE then (Inl OverflowError, s)
          else if xs = [] then (Inl IndexError, s)
          else (case make_int_var (Some lo) (Some hi) None None s of
                  (Inl e, s1) \<Rightarrow> (Inl e, s1)
                | (Inr t, s1) \<Rightarrow>
                    (case post_sum xs t s1 of
                       (Some e, s2) \<Rightarrow> (Inl e, s2)
                     | (None, s2) \<Rightarrow> (Inr t, s2))))"

section \<open>solver.py: the fix-point\<close>

text \<open>
  \<open>MiniCP._propagate(c)\<close>: \<open>c.set_scheduled(False); if c.is_active(): c.propagate()\<close>.
\<close>

definition solver_propagate :: "(nat \<Rightarrow> cp_objs closure) \<Rightarrow> nat \<Rightarrow> cp_objs closure" where
  "solver_propagate propagate c s =
     (let s1 = set_scheduled c False s in
      if is_active c s1 then propagate c s1 else (None, s1))"

text \<open>\<open>self._propagation_queue.popleft()\<close> on a queue that is not empty.\<close>

definition popleft :: "cp_state \<Rightarrow> cp_state" where
  "popleft s = (case s of (x, m) \<Rightarrow> (x\<lparr>cp_propagation_queue := tl (cp_propagation_queue x)\<rparr>, m))"

text \<open>
  \<open>while self._propagation_queue: self._propagate(self._propagation_queue.popleft())\<close>.
  The loop runs as long as constraints get scheduled, so it need not end: \<open>None\<close> is
  the loop that runs forever.
\<close>

partial_function (option) propagate_loop ::
  "(nat \<Rightarrow> cp_objs closure) \<Rightarrow> cp_state \<Rightarrow> (exn option \<times> cp_state) option" where
  "propagate_loop propagate s =
     (case cp_propagation_queue (fst s) of
        [] \<Rightarrow> Some (None, s)
      | c # q \<Rightarrow>
          (case solver_propagate propagate c (popleft s) of
             (Some e, s1) \<Rightarrow> Some (Some e, s1)
           | (None, s1) \<Rightarrow> propagate_loop propagate s1))"

text \<open>
  The handler of \<open>fix_point\<close>:
  \<open>while self._propagation_queue: self._propagation_queue.popleft().set_scheduled(False)\<close>.
\<close>

definition drain :: "cp_state \<Rightarrow> cp_state" where
  "drain s =
     (case fold (\<lambda>c s'. set_scheduled c False s') (cp_propagation_queue (fst s)) s of
        (x, m) \<Rightarrow> (x\<lparr>cp_propagation_queue := []\<rparr>, m))"

text \<open>
  \<open>MiniCP.fix_point\<close>, with the fix-point listeners and the \<open>propagate\<close> of every
  constraint as parameters: the \<open>try\<close> block, then the handler. Only Inconsistency
  is caught; it is raised again after the queue is drained.
\<close>

definition fix_point_try ::
  "cp_objs closure list \<Rightarrow> (nat \<Rightarrow> cp_objs closure) \<Rightarrow> cp_state
   \<Rightarrow> (exn option \<times> cp_state) option" where
  "fix_point_try listeners propagate s =
     (case seqs listeners s of
        (Some e, s1) \<Rightarrow> Some (Some e, s1)
      | (None, s1) \<Rightarrow> propagate_loop propagate s1)"

definition fix_point ::
  "cp_objs closure list \<Rightarrow> (nat \<Rightarrow> cp_objs closure) \<Rightarrow> cp_state
   \<Rightarrow> (exn option \<times> cp_state) option" where
  "fix_point listeners propagate s =
     (case fix_point_try listeners propagate s of
        None \<Rightarrow> None
      | Some (Some e, s2) \<Rightarrow>
          if e = InconsistencyException then Some (Some e, drain s2) else Some (Some e, s2)
      | Some (None, s2) \<Rightarrow> Some (None, s2))"

text \<open>
  \<open>MiniCP.post(c, enforce_fix_point)\<close>: \<open>c.post()\<close>, then the fix-point when asked
  for. \<open>post_c\<close> is the \<open>post\<close> of the constraint.
\<close>

definition solver_post ::
  "cp_objs closure list \<Rightarrow> (nat \<Rightarrow> cp_objs closure) \<Rightarrow> cp_objs closure \<Rightarrow> bool \<Rightarrow> cp_state
   \<Rightarrow> (exn option \<times> cp_state) option" where
  "solver_post listeners propagate post_c enforce_fix_point s =
     (case post_c s of
        (Some e, s1) \<Rightarrow> Some (Some e, s1)
      | (None, s1) \<Rightarrow>
          if enforce_fix_point then fix_point listeners propagate s1 else Some (None, s1))"

text \<open>
  The scheduling invariant: a constraint is marked scheduled exactly when it sits in
  the propagation queue, the queue holds constraints of the solver, and none twice.
\<close>

definition sched_inv :: "cp_state \<Rightarrow> bool" where
  "sched_inv s =
     (distinct (cp_propagation_queue (fst s)) \<and>
      (\<forall>c \<in> set (cp_propagation_queue (fst s)). c < length (cp_constraints (fst s))) \<and>
      (\<forall>c < length (cp_constraints (fst s)).
         c_scheduled (cp_constraints (fst s) ! c) = (c \<in> set (cp_propagation_queue (fst s)))))"

text \<open>
  \<open>solver_inv n\<close>: the scheduling invariant on a solver that has kept the \<open>n\<close>
  constraints it started with.
\<close>

definition solver_inv :: "nat \<Rightarrow> cp_state \<Rightarrow> bool" where
  "solver_inv n s = (n \<le> length (cp_constraints (fst s)) \<and> sched_inv s)"

definition none_scheduled :: "cp_state \<Rightarrow> bool" where
  "none_scheduled s =
     (cp_propagation_queue (fst s) = [] \<and>
      (\<forall>c < length (cp_constraints (fst s)). \<not> c_scheduled (cp_constraints (fst s) ! c)))"

declare propagate_loop.simps [code]

section \<open>The scheduling invariant: the proofs\<close>

lemma sched_inv_schedule:
  assumes "sched_inv s" and "c < length (cp_constraints (fst s))"
  shows "sched_inv (schedule c s)"
  using assms
  by (cases s)
     (auto simp: sched_inv_def schedule_def is_scheduled_def set_scheduled_def is_active_def
           nth_list_update split: prod.splits)

lemma schedule_length [simp]:
  "length (cp_constraints (fst (schedule c s))) = length (cp_constraints (fst s))"
  by (cases s) (simp add: schedule_def set_scheduled_def split: prod.splits)

lemma sched_inv_set_active: "sched_inv (set_active c b s) = sched_inv s"
  by (cases s) (simp add: sched_inv_def set_active_def)

lemma sched_inv_dequeue:
  assumes "sched_inv s" and "cp_propagation_queue (fst s) = c # q"
  shows "sched_inv (set_scheduled c False (popleft s))"
  using assms
  by (cases s)
     (auto simp: sched_inv_def set_scheduled_def popleft_def nth_list_update)

lemma dequeue_length [simp]:
  "length (cp_constraints (fst (set_scheduled c b (popleft s)))) = length (cp_constraints (fst s))"
  by (cases s) (simp add: set_scheduled_def popleft_def)

lemma set_scheduled_props:
  "length (cp_constraints (fst (set_scheduled a b s))) = length (cp_constraints (fst s))"
  "cp_propagation_queue (fst (set_scheduled a b s)) = cp_propagation_queue (fst s)"
  "c < length (cp_constraints (fst s)) \<Longrightarrow>
     c_scheduled (cp_constraints (fst (set_scheduled a b s)) ! c) =
       (if c = a then b else c_scheduled (cp_constraints (fst s) ! c))"
  by (cases s; simp add: set_scheduled_def nth_list_update)+

lemma fold_set_scheduled:
  "length (cp_constraints (fst (fold (\<lambda>c s'. set_scheduled c False s') cs s))) =
     length (cp_constraints (fst s)) \<and>
   cp_propagation_queue (fst (fold (\<lambda>c s'. set_scheduled c False s') cs s)) =
     cp_propagation_queue (fst s) \<and>
   (\<forall>c < length (cp_constraints (fst s)).
      c_scheduled (cp_constraints (fst (fold (\<lambda>c s'. set_scheduled c False s') cs s)) ! c) =
        (c_scheduled (cp_constraints (fst s) ! c) \<and> c \<notin> set cs))"
proof (induction cs arbitrary: s)
  case Nil
  show ?case by simp
next
  case (Cons a cs)
  show ?case
    using Cons.IH [of "set_scheduled a False s"]
    by (auto simp: set_scheduled_props)
qed

lemma drain_none_scheduled:
  assumes "sched_inv s"
  shows "none_scheduled (drain s)"
    and "length (cp_constraints (fst (drain s))) = length (cp_constraints (fst s))"
  using assms fold_set_scheduled [of "cp_propagation_queue (fst s)" s]
  by (auto simp: none_scheduled_def drain_def sched_inv_def split: prod.splits)

lemma none_scheduled_inv: "none_scheduled s \<Longrightarrow> sched_inv s"
  by (simp add: none_scheduled_def sched_inv_def)

lemma seqs_inv:
  assumes "\<forall>l \<in> set ls. \<forall>s. P s \<longrightarrow> P (snd (l s))" and "P s"
  shows "P (snd (seqs ls s))"
  using assms
proof (induction ls arbitrary: s)
  case Nil
  then show ?case by (simp add: skip_def)
next
  case (Cons l ls)
  obtain e s1 where l: "l s = (e, s1)" by (cases "l s")
  have "P (snd (l s))" using Cons.prems by (cases s) auto
  with l have p1: "P s1" by simp
  show ?case
  proof (cases e)
    case None
    with l Cons.IH [of s1] Cons.prems(1) p1 show ?thesis by (simp add: seq_def)
  next
    case (Some ex)
    with l p1 show ?thesis by (simp add: seq_def)
  qed
qed

lemma solver_inv_schedule:
  assumes "solver_inv n s" and "c < n"
  shows "solver_inv n (schedule c s)"
  using assms sched_inv_schedule [of s c] by (simp add: solver_inv_def)

lemma schedule_cases:
  "schedule c s = s \<or>
   (is_active c s \<and> \<not> is_scheduled c s \<and> is_scheduled c (schedule c s) \<and>
    cp_propagation_queue (fst (schedule c s)) = cp_propagation_queue (fst s) @ [c])"
  if "c < length (cp_constraints (fst s))"
  using that
  by (cases s) (auto simp: schedule_def is_scheduled_def set_scheduled_def split: prod.splits)

text \<open>
  \<open>model_inv n k\<close>: the scheduling invariant on a solver that has kept its \<open>n\<close>
  constraints and \<open>k\<close> variables, whose stacks hold constraints of the solver only.
  \<open>keeps P f\<close>: the closure \<open>f\<close> keeps the invariant \<open>P\<close>, whether it returns or
  raises.
\<close>

definition model_inv :: "nat \<Rightarrow> nat \<Rightarrow> cp_state \<Rightarrow> bool" where
  "model_inv n k s =
     (solver_inv n s \<and> k \<le> length (cp_vars (fst s)) \<and>
      (\<forall>v \<in> set (cp_vars (fst s)).
         \<forall>c \<in> set (stk_stack (iv_on_domain v)) \<union> set (stk_stack (iv_on_fix v)) \<union>
               set (stk_stack (iv_on_bound v)). c < n))"

definition keeps :: "('s \<Rightarrow> bool) \<Rightarrow> ('s \<Rightarrow> 'e \<times> 's) \<Rightarrow> bool" where
  "keeps P f = (\<forall>s. P s \<longrightarrow> P (snd (f s)))"

lemma keeps_skip: "keeps P skip"
  by (simp add: keeps_def skip_def)

lemma keeps_raise: "keeps P (raise e)"
  by (simp add: keeps_def raise_def)

lemma keeps_seq: "keeps P f \<Longrightarrow> keeps P g \<Longrightarrow> keeps P (seq f g)"
  by (auto simp: keeps_def seq_def split: prod.splits option.splits)
     (metis snd_conv)+

lemma keeps_seqs: "\<forall>f \<in> set fs. keeps P f \<Longrightarrow> keeps P (seqs fs)"
  by (induction fs) (simp_all add: keeps_skip keeps_seq)

lemma keeps_cond: "keeps P f \<Longrightarrow> keeps P (cond p f)"
  by (simp add: keeps_def cond_def)

lemma keeps_with_val: "(\<And>a. keeps P (k a)) \<Longrightarrow> keeps P (with_val f k)"
  by (simp add: keeps_def with_val_def split: sum.splits)

lemma schedule_vars [simp]: "cp_vars (fst (schedule c s)) = cp_vars (fst s)"
  by (cases s) (simp add: schedule_def set_scheduled_def split: prod.splits)

lemma model_inv_schedule:
  assumes "model_inv n k s" and "c < n"
  shows "model_inv n k (schedule c s)"
  using assms solver_inv_schedule [of n s c] by (simp add: model_inv_def)

lemma model_inv_fold_schedule:
  assumes "model_inv n k s" and "\<forall>c \<in> set cs. c < n"
  shows "model_inv n k (fold schedule cs s)"
  using assms by (induction cs arbitrary: s) (simp_all add: model_inv_schedule)

lemma model_inv_schedule_all:
  assumes "i < k" and "stack = iv_on_domain \<or> stack = iv_on_fix \<or> stack = iv_on_bound"
  shows "keeps (model_inv n k) (schedule_all stack i)"
  unfolding keeps_def
proof (intro allI impI)
  fix s :: cp_state
  assume m: "model_inv n k s"
  with assms(1) have v: "cp_vars (fst s) ! i \<in> set (cp_vars (fst s))"
    by (simp add: model_inv_def)
  have "set (stk_elems (stack (cp_vars (fst s) ! i)) (snd s)) \<subseteq>
        set (stk_stack (stack (cp_vars (fst s) ! i)))"
    by (simp add: stk_elems_def set_take_subset)
  with m v assms(2) have "\<forall>c \<in> set (stk_elems (stack (cp_vars (fst s) ! i)) (snd s)). c < n"
    by (auto simp: model_inv_def)
  with m show "model_inv n k (snd (schedule_all stack i s))"
    by (simp add: schedule_all_def model_inv_fold_schedule)
qed

lemma model_inv_put_domain:
  assumes "model_inv n k s"
  shows "model_inv n k (put_domain i dm (fst s))"
proof -
  obtain d m where dm: "dm = (d, m)" by (cases dm)
  let ?xs = "cp_vars (fst s)"
  have "\<forall>c \<in> set (stk_stack (iv_on_domain v)) \<union> set (stk_stack (iv_on_fix v)) \<union>
               set (stk_stack (iv_on_bound v)). c < n"
    if "v \<in> set (?xs[i := (?xs ! i)\<lparr>iv_domain := d\<rparr>])" for v
  proof (cases "i < length ?xs")
    case True
    from that obtain j where j: "j < length ?xs" "v = (?xs[i := (?xs ! i)\<lparr>iv_domain := d\<rparr>]) ! j"
      by (auto simp: in_set_conv_nth)
    show ?thesis
    proof (cases "j = i")
      case True
      with j \<open>i < length ?xs\<close> have "v = (?xs ! i)\<lparr>iv_domain := d\<rparr>" by simp
      moreover have "?xs ! i \<in> set ?xs" using \<open>i < length ?xs\<close> by simp
      ultimately show ?thesis using assms by (auto simp: model_inv_def)
    next
      case False
      with j have "v \<in> set ?xs" by simp
      with assms show ?thesis by (auto simp: model_inv_def)
    qed
  next
    case False
    with that have "v \<in> set ?xs" by (simp add: list_update_beyond not_less)
    with assms show ?thesis by (auto simp: model_inv_def)
  qed
  with assms dm show ?thesis
    by (simp add: model_inv_def put_domain_def solver_inv_def sched_inv_def)
qed

lemma keeps_DomainListener:
  assumes "i < k"
  shows "keeps (model_inv n k) (dl_empty (DomainListener i))"
    and "keeps (model_inv n k) (dl_fix (DomainListener i))"
    and "keeps (model_inv n k) (dl_change (DomainListener i))"
    and "keeps (model_inv n k) (dl_change_min (DomainListener i))"
    and "keeps (model_inv n k) (dl_change_max (DomainListener i))"
  using assms by (simp_all add: DomainListener_def keeps_raise model_inv_schedule_all)

lemma keeps_bounds_notify:
  assumes "i < k" and "keeps (model_inv n k) b"
  shows "keeps (model_inv n k)
     (\<lambda>s. if ssd_size i s = 0 then dl_empty (DomainListener i) s
           else if ssd_size i s = 1
           then seqs [dl_fix (DomainListener i), b, dl_change (DomainListener i)] s
           else seqs [b, dl_change (DomainListener i)] s)"
proof -
  note kl = keeps_DomainListener [OF assms(1), of n]
  have 1: "keeps (model_inv n k) (seqs [dl_fix (DomainListener i), b, dl_change (DomainListener i)])"
    by (rule keeps_seqs) (use kl assms(2) in simp)
  have 2: "keeps (model_inv n k) (seqs [b, dl_change (DomainListener i)])"
    by (rule keeps_seqs) (use kl assms(2) in simp)
  from kl(1) 1 2 show ?thesis
    unfolding keeps_def by auto
qed

lemma keeps_var_remove_below:
  assumes "i < k"
  shows "keeps (model_inv n k) (var_remove_below (VarImpl i) v)"
proof -
  have 1: "keeps (model_inv n k)
      (\<lambda>s. case ss_remove_below v (var_domain i s, snd s) of
             (e, dm) \<Rightarrow> (e, put_domain i dm (fst s)))"
    unfolding keeps_def
  proof (intro allI impI)
    fix s :: cp_state
    assume "model_inv n k s"
    then show "model_inv n k
        (snd (case ss_remove_below v (var_domain i s, snd s) of
                (e, dm) \<Rightarrow> (e, put_domain i dm (fst s))))"
      by (cases "ss_remove_below v (var_domain i s, snd s)") (simp add: model_inv_put_domain)
  qed
  note 2 = keeps_bounds_notify [OF assms keeps_DomainListener(4) [OF assms]]
  show ?thesis
    unfolding var_remove_below.simps ssd_remove_below_def
    by (intro keeps_with_val keeps_cond keeps_seqs) (use 1 2 in simp)
qed

lemma keeps_var_remove_above:
  assumes "i < k"
  shows "keeps (model_inv n k) (var_remove_above (VarImpl i) v)"
proof -
  have 1: "keeps (model_inv n k)
      (\<lambda>s. case ss_remove_above v (var_domain i s, snd s) of
             (e, dm) \<Rightarrow> (e, put_domain i dm (fst s)))"
    unfolding keeps_def
  proof (intro allI impI)
    fix s :: cp_state
    assume "model_inv n k s"
    then show "model_inv n k
        (snd (case ss_remove_above v (var_domain i s, snd s) of
                (e, dm) \<Rightarrow> (e, put_domain i dm (fst s))))"
      by (cases "ss_remove_above v (var_domain i s, snd s)") (simp add: model_inv_put_domain)
  qed
  note 2 = keeps_bounds_notify [OF assms keeps_DomainListener(5) [OF assms]]
  show ?thesis
    unfolding var_remove_above.simps ssd_remove_above_def
    by (intro keeps_with_val keeps_cond keeps_seqs) (use 1 2 in simp)
qed

lemma model_inv_dequeue:
  assumes "model_inv n k s" and "cp_propagation_queue (fst s) = c # q"
  shows "model_inv n k (set_scheduled c False (popleft s))"
proof -
  have "cp_vars (fst (set_scheduled c False (popleft s))) = cp_vars (fst s)"
    by (cases s) (simp add: set_scheduled_def popleft_def)
  with assms sched_inv_dequeue [of s c q] show ?thesis
    by (simp add: model_inv_def solver_inv_def)
qed

lemma propagate_loop_keeps_aux:
  assumes "propagate_loop propagate s = Some y"
  shows "(\<forall>c s. J s \<longrightarrow> J (snd (propagate c s))) \<longrightarrow>
         (\<forall>c q s. J s \<and> cp_propagation_queue (fst s) = c # q \<longrightarrow>
            J (set_scheduled c False (popleft s))) \<longrightarrow>
         J s \<longrightarrow>
         J (snd y) \<and> (fst y = None \<longrightarrow> cp_propagation_queue (fst (snd y)) = [])"
proof (rule propagate_loop.raw_induct
    [OF _ assms,
     where P = "\<lambda>propagate s y.
       (\<forall>c s. J s \<longrightarrow> J (snd (propagate c s))) \<longrightarrow>
       (\<forall>c q s. J s \<and> cp_propagation_queue (fst s) = c # q \<longrightarrow>
          J (set_scheduled c False (popleft s))) \<longrightarrow>
       J s \<longrightarrow>
       J (snd y) \<and> (fst y = None \<longrightarrow> cp_propagation_queue (fst (snd y)) = [])"],
    intro impI)
  fix loop :: "(nat \<Rightarrow> cp_objs closure) \<Rightarrow> cp_state \<Rightarrow> (exn option \<times> cp_state) option"
    and propagate s y
  assume IH: "\<And>p s1 y. loop p s1 = Some y \<Longrightarrow>
       (\<forall>c s. J s \<longrightarrow> J (snd (p c s))) \<longrightarrow>
       (\<forall>c q s. J s \<and> cp_propagation_queue (fst s) = c # q \<longrightarrow>
          J (set_scheduled c False (popleft s))) \<longrightarrow>
       J s1 \<longrightarrow>
       J (snd y) \<and> (fst y = None \<longrightarrow> cp_propagation_queue (fst (snd y)) = [])"
    and eq: "(case cp_propagation_queue (fst s) of
                [] \<Rightarrow> Some (None, s)
              | c # q \<Rightarrow>
                  (case solver_propagate propagate c (popleft s) of
                     (None, s1) \<Rightarrow> loop propagate s1
                   | (Some e, s1) \<Rightarrow> Some (Some e, s1))) = Some y"
    and pres: "\<forall>c s. J s \<longrightarrow> J (snd (propagate c s))"
    and deq: "\<forall>c q s. J s \<and> cp_propagation_queue (fst s) = c # q \<longrightarrow>
          J (set_scheduled c False (popleft s))"
    and inv: "J s"
  show "J (snd y) \<and> (fst y = None \<longrightarrow> cp_propagation_queue (fst (snd y)) = [])"
  proof (cases "cp_propagation_queue (fst s)")
    case Nil
    with eq inv show ?thesis by auto
  next
    case (Cons c q)
    let ?s0 = "set_scheduled c False (popleft s)"
    have i0: "J ?s0"
      using inv Cons deq by blast
    obtain e s1 where p: "solver_propagate propagate c (popleft s) = (e, s1)"
      by (cases "solver_propagate propagate c (popleft s)")
    have i1: "J s1"
    proof (cases "is_active c ?s0")
      case True
      with p have "s1 = snd (propagate c ?s0)" by (simp add: solver_propagate_def Let_def)
      with pres i0 show ?thesis by blast
    next
      case False
      with p have "s1 = ?s0" by (simp add: solver_propagate_def Let_def)
      with i0 show ?thesis by simp
    qed
    show ?thesis
    proof (cases e)
      case None
      with eq Cons p have "loop propagate s1 = Some y" by simp
      from IH [OF this] pres deq i1 show ?thesis by blast
    next
      case (Some ex)
      with eq Cons p have "y = (Some ex, s1)" by simp
      with i1 show ?thesis by simp
    qed
  qed
qed

lemma fix_point_try_keeps:
  assumes "fix_point_try listeners propagate s = Some (r, s2)"
    and "\<forall>l \<in> set listeners. \<forall>s. J s \<longrightarrow> J (snd (l s))"
    and "\<forall>c s. J s \<longrightarrow> J (snd (propagate c s))"
    and "\<forall>c q s. J s \<and> cp_propagation_queue (fst s) = c # q \<longrightarrow>
           J (set_scheduled c False (popleft s))"
    and "J s"
  shows "J s2 \<and> (r = None \<longrightarrow> cp_propagation_queue (fst s2) = [])"
proof -
  obtain e s1 where l: "seqs listeners s = (e, s1)" by (cases "seqs listeners s")
  have i1: "J s1"
    using seqs_inv [of listeners J s] assms(2,5) l by simp
  show ?thesis
  proof (cases e)
    case None
    with assms(1) l have "propagate_loop propagate s1 = Some (r, s2)"
      by (simp add: fix_point_try_def)
    from propagate_loop_keeps_aux [OF this, of J] assms(3,4) i1 show ?thesis by simp
  next
    case (Some ex)
    with assms(1) l i1 show ?thesis by (auto simp: fix_point_try_def)
  qed
qed

section \<open>Claims on the fix-point\<close>

text \<open>
  A solver with a variable \<open>x\<close> in \<open>{0, ..., 5}\<close> and three constraints, the second
  and the third subscribed to the bound changes of \<open>x\<close>, the first one scheduled. Three
  ways for them to propagate. In each, the first constraint removes the values below 3,
  which schedules the other two. Then the second constraint removes the values above 2,
  which empties the domain and raises Inconsistency; or it raises NotImplementedError (as
  the \<open>propagate\<close> of \<open>Element1D\<close> does); or it does nothing.
\<close>

definition bound_model :: cp_state where
  "bound_model =
     (let s1 = snd (make_int_var (Some 0) (Some 5) None None (make_solver False));
          s2 = snd (AbstractConstraint s1);
          s3 = snd (AbstractConstraint s2);
          s4 = snd (AbstractConstraint s3);
          s5 = propagate_on_bound_change (VarImpl 0) 1 s4;
          s6 = propagate_on_bound_change (VarImpl 0) 2 s5
      in schedule 0 s6)"

definition bound_propagate :: "nat \<Rightarrow> cp_objs closure" where
  "bound_propagate c =
     (if c = 0 then var_remove_below (VarImpl 0) 3
      else if c = 1 then var_remove_above (VarImpl 0) 2
      else skip)"

definition failing_propagate :: "nat \<Rightarrow> cp_objs closure" where
  "failing_propagate c =
     (if c = 0 then var_remove_below (VarImpl 0) 3 else raise NotImplementedError)"

definition quiet_propagate :: "nat \<Rightarrow> cp_objs closure" where
  "quiet_propagate c = (if c = 0 then var_remove_below (VarImpl 0) 3 else skip)"

lemma bound_model_fst:
  "fst bound_model =
     \<lparr>cp_vars =
        [\<lparr>iv_domain =
            \<lparr>ss_n = 6, ss_ofs = 0, ss_size_ref = 1, ss_min_ref = 2, ss_max_ref = 3,
             ss_values = [0, 1, 2, 3, 4, 5], ss_indices = [0, 1, 2, 3, 4, 5]\<rparr>,
          iv_on_domain = \<lparr>stk_size_ref = 4, stk_stack = []\<rparr>,
          iv_on_fix = \<lparr>stk_size_ref = 5, stk_stack = []\<rparr>,
          iv_on_bound = \<lparr>stk_size_ref = 6, stk_stack = [1, 2]\<rparr>\<rparr>],
      cp_constraints =
        [\<lparr>c_active = 7, c_scheduled = True\<rparr>, \<lparr>c_active = 8, c_scheduled = False\<rparr>,
         \<lparr>c_active = 9, c_scheduled = False\<rparr>],
      cp_propagation_queue = [0],
      cp_vars_stack = \<lparr>stk_size_ref = 0, stk_stack = []\<rparr>\<rparr>"
  by code_simp

lemma model_inv_bound_model: "model_inv 3 1 bound_model"
  by (simp add: model_inv_def solver_inv_def sched_inv_def bound_model_fst
        All_less_Suc numeral_3_eq_3)

text \<open>
  Claim C3, as amended. Let \<open>J\<close> be an invariant of the solver that implies the
  scheduling invariant (a constraint is marked scheduled exactly while it sits in the
  propagation queue) and that the fix-point listeners, the propagators and the
  dequeuing of a constraint keep. On a solver that satisfies \<open>J\<close>: \<open>schedule\<close> keeps
  the scheduling invariant, and either changes nothing or finds the constraint active
  and not scheduled, marks it and appends it to the queue. When a step of the \<open>try\<close>
  block of \<open>fix_point\<close> raises Inconsistency, \<open>fix_point\<close> drains the queue, which
  leaves no constraint in it and none marked scheduled, and raises Inconsistency again.
  Any other exception is not caught: it leaves \<open>fix_point\<close> with the state as the
  \<open>try\<close> block left it, the constraints then in the queue still queued and marked.
  Whenever \<open>fix_point\<close> terminates, the scheduling invariant holds, and when it
  terminates normally or by raising Inconsistency, the queue is empty and no constraint
  is marked scheduled.
\<close>

theorem fix_point_leaves_none_scheduled:
  assumes "J s"
    and "\<forall>s. J s \<longrightarrow> solver_inv n s"
    and "\<forall>l \<in> set listeners. \<forall>s. J s \<longrightarrow> J (snd (l s))"
    and "\<forall>c s. J s \<longrightarrow> J (snd (propagate c s))"
    and "\<forall>c q s. J s \<and> cp_propagation_queue (fst s) = c # q \<longrightarrow>
           J (set_scheduled c False (popleft s))"
  shows "(\<forall>c < n. solver_inv n (schedule c s) \<and>
            (schedule c s = s \<or>
             (is_active c s \<and> \<not> is_scheduled c s \<and> is_scheduled c (schedule c s) \<and>
              cp_propagation_queue (fst (schedule c s)) = cp_propagation_queue (fst s) @ [c]))) \<and>
         (\<forall>s2. fix_point_try listeners propagate s = Some (Some InconsistencyException, s2) \<longrightarrow>
            fix_point listeners propagate s = Some (Some InconsistencyException, drain s2) \<and>
            none_scheduled (drain s2)) \<and>
         (\<forall>e s2. fix_point_try listeners propagate s = Some (Some e, s2) \<and>
              e \<noteq> InconsistencyException \<longrightarrow>
            fix_point listeners propagate s = Some (Some e, s2) \<and> J s2) \<and>
         (\<forall>r s'. fix_point listeners propagate s = Some (r, s') \<longrightarrow>
            solver_inv n s' \<and>
            (r = None \<or> r = Some InconsistencyException \<longrightarrow> none_scheduled s'))"
proof (intro conjI allI impI)
  from assms(1,2) have inv: "solver_inv n s" by blast
  fix c assume "c < n"
  with inv show "solver_inv n (schedule c s)" by (rule solver_inv_schedule)
  from \<open>c < n\<close> inv have "c < length (cp_constraints (fst s))"
    by (simp add: solver_inv_def)
  then show "schedule c s = s \<or>
             (is_active c s \<and> \<not> is_scheduled c s \<and> is_scheduled c (schedule c s) \<and>
              cp_propagation_queue (fst (schedule c s)) = cp_propagation_queue (fst s) @ [c])"
    by (rule schedule_cases)
next
  fix s2
  assume t: "fix_point_try listeners propagate s = Some (Some InconsistencyException, s2)"
  then show "fix_point listeners propagate s = Some (Some InconsistencyException, drain s2)"
    by (simp add: fix_point_def)
  from fix_point_try_keeps [OF t assms(3,4,5,1)] have "J s2" by simp
  with assms(2) have "solver_inv n s2" by blast
  then have "sched_inv s2" by (simp add: solver_inv_def)
  then show "none_scheduled (drain s2)" by (rule drain_none_scheduled)
next
  fix e s2
  assume t: "fix_point_try listeners propagate s = Some (Some e, s2) \<and>
    e \<noteq> InconsistencyException"
  then show "fix_point listeners propagate s = Some (Some e, s2)"
    by (simp add: fix_point_def)
  from t fix_point_try_keeps [of listeners propagate s "Some e" s2 J] assms(3,4,5,1)
  show "J s2" by blast
next
  fix r s'
  assume f: "fix_point listeners propagate s = Some (r, s')"
  then obtain r2 s2 where t: "fix_point_try listeners propagate s = Some (r2, s2)"
    by (cases "fix_point_try listeners propagate s") (auto simp: fix_point_def)
  from fix_point_try_keeps [OF t assms(3,4,5,1)]
  have j2: "J s2" and q2: "r2 = None \<longrightarrow> cp_propagation_queue (fst s2) = []"
    by simp_all
  from j2 assms(2) have i2: "solver_inv n s2" by blast
  have d: "none_scheduled (drain s2)" "solver_inv n (drain s2)"
    using i2 drain_none_scheduled [of s2] none_scheduled_inv [of "drain s2"]
    by (simp_all add: solver_inv_def)
  have n2: "none_scheduled s2" if "r2 = None"
    using that q2 i2 by (auto simp: none_scheduled_def solver_inv_def sched_inv_def)
  show "solver_inv n s'"
    using f t i2 d by (auto simp: fix_point_def split: option.splits if_splits)
  show "none_scheduled s'" if "r = None \<or> r = Some InconsistencyException"
    using that f t d n2 by (auto simp: fix_point_def split: option.splits if_splits)
qed

text \<open>
  Claim C3 as stated fails for an exception other than Inconsistency: when the second
  constraint raises NotImplementedError, \<open>fix_point\<close> ends with the third constraint
  still in the queue and marked scheduled.
\<close>

theorem fix_point_keeps_queue_on_other_exception:
  "fix_point [] failing_propagate bound_model \<noteq> None \<and>
   fst (the (fix_point [] failing_propagate bound_model)) = Some NotImplementedError \<and>
   cp_propagation_queue (fst (snd (the (fix_point [] failing_propagate bound_model)))) = [2] \<and>
   is_scheduled 2 (snd (the (fix_point [] failing_propagate bound_model))) \<and>
   \<not> none_scheduled (snd (the (fix_point [] failing_propagate bound_model)))"
proof -
  have "fix_point [] failing_propagate bound_model \<noteq> None \<and>
   fst (the (fix_point [] failing_propagate bound_model)) = Some NotImplementedError \<and>
   cp_propagation_queue (fst (snd (the (fix_point [] failing_propagate bound_model)))) = [2] \<and>
   is_scheduled 2 (snd (the (fix_point [] failing_propagate bound_model)))"
    by code_simp
  then show ?thesis
    by (simp add: none_scheduled_def)
qed

text \<open>
  The theorem of C3 on the example solver, with the invariant \<open>model_inv 3 1\<close>: a
  fix-point that ends with Inconsistency and one that ends normally, both with no
  constraint left scheduled, and one that ends with NotImplementedError, with the
  scheduling invariant and a constraint in the queue.
\<close>

theorem fix_point_leaves_none_scheduled_witness:
  "(\<exists>s'. fix_point [] bound_propagate bound_model = Some (Some InconsistencyException, s') \<and>
         none_scheduled s') \<and>
   (\<exists>s'. fix_point [] quiet_propagate bound_model = Some (None, s') \<and> none_scheduled s') \<and>
   (\<exists>s'. fix_point [] failing_propagate bound_model = Some (Some NotImplementedError, s') \<and>
         solver_inv 3 s' \<and> cp_propagation_queue (fst s') = [2]) \<and>
   is_scheduled 0 bound_model \<and> cp_propagation_queue (fst bound_model) = [0] \<and>
   schedule 0 bound_model = bound_model \<and>
   cp_propagation_queue (fst (schedule 1 bound_model)) = [0, 1]"
proof -
  let ?J = "model_inv 3 1"
  have j: "?J bound_model" by (rule model_inv_bound_model)
  have si: "\<forall>s. ?J s \<longrightarrow> solver_inv 3 s" by (simp add: model_inv_def)
  have ls: "\<forall>l \<in> set []. \<forall>s. ?J s \<longrightarrow> ?J (snd (l s))" by simp
  have dq: "\<forall>c q s. ?J s \<and> cp_propagation_queue (fst s) = c # q \<longrightarrow>
      ?J (set_scheduled c False (popleft s))"
    using model_inv_dequeue by blast
  have kb: "keeps ?J (var_remove_below (VarImpl 0) 3)"
    by (rule keeps_var_remove_below) simp
  have ka: "keeps ?J (var_remove_above (VarImpl 0) 2)"
    by (rule keeps_var_remove_above) simp
  have p1: "\<forall>c s. ?J s \<longrightarrow> ?J (snd (bound_propagate c s))"
    using kb ka by (simp add: bound_propagate_def keeps_def skip_def)
  have p2: "\<forall>c s. ?J s \<longrightarrow> ?J (snd (quiet_propagate c s))"
    using kb by (simp add: quiet_propagate_def keeps_def skip_def)
  have p3: "\<forall>c s. ?J s \<longrightarrow> ?J (snd (failing_propagate c s))"
    using kb by (simp add: failing_propagate_def keeps_def raise_def)
  have "map_option fst (fix_point [] bound_propagate bound_model) =
      Some (Some InconsistencyException)"
    by code_simp
  then obtain s1 where e1: "fix_point [] bound_propagate bound_model =
      Some (Some InconsistencyException, s1)"
    by auto
  have "map_option fst (fix_point [] quiet_propagate bound_model) = Some None"
    by code_simp
  then obtain s2 where e2: "fix_point [] quiet_propagate bound_model = Some (None, s2)"
    by auto
  have "map_option (\<lambda>r. (fst r, cp_propagation_queue (fst (snd r))))
      (fix_point [] failing_propagate bound_model) = Some (Some NotImplementedError, [2])"
    by code_simp
  then obtain s3 where e3: "fix_point [] failing_propagate bound_model =
      Some (Some NotImplementedError, s3)" "cp_propagation_queue (fst s3) = [2]"
    by auto
  from fix_point_leaves_none_scheduled [OF j si ls p1 dq] e1
  have a: "none_scheduled s1" by blast
  from fix_point_leaves_none_scheduled [OF j si ls p2 dq] e2
  have b: "none_scheduled s2" by blast
  from fix_point_leaves_none_scheduled [OF j si ls p3 dq] e3(1)
  have c: "solver_inv 3 s3" by blast
  have d: "is_scheduled 0 bound_model \<and> cp_propagation_queue (fst bound_model) = [0] \<and>
     cp_propagation_queue (fst (schedule 1 bound_model)) = [0, 1]"
    by code_simp
  from fix_point_leaves_none_scheduled [OF j si ls p1 dq]
  have "\<forall>c < 3. schedule c bound_model = bound_model \<or> \<not> is_scheduled c bound_model"
    by blast
  then have "schedule 0 bound_model = bound_model \<or> \<not> is_scheduled 0 bound_model"
    by simp
  with d have e: "schedule 0 bound_model = bound_model"
    by blast
  from a b c d e e1 e2 e3 show ?thesis by blast
qed

section \<open>search.py: statistics and listeners\<close>

text \<open>\<open>class SearchStatistics\<close>.\<close>

record stats =
  n_failures :: int
  n_nodes :: int
  n_solutions :: int
  completed :: bool

definition SearchStatistics :: stats where
  "SearchStatistics = \<lparr>n_failures = 0, n_nodes = 0, n_solutions = 0, completed = False\<rparr>"

text \<open>
  \<open>class DFSListener\<close>: \<open>solution(p_id, id, position)\<close>, \<open>fail(p_id, id, position)\<close>
  and \<open>branch(p_id, id, position, n_childs)\<close>. A listener acts on the objects of the
  model being searched, of type \<open>'x\<close>, and on the state manager.
\<close>

record 'x dfs_listener =
  l_solution :: "int \<Rightarrow> int \<Rightarrow> int \<Rightarrow> 'x closure"
  l_fail :: "int \<Rightarrow> int \<Rightarrow> int \<Rightarrow> 'x closure"
  l_branch :: "int \<Rightarrow> int \<Rightarrow> int \<Rightarrow> int \<Rightarrow> 'x closure"

text \<open>
  \<open>class DFSearch\<close>: the branching, \<open>_curr_node_id_id\<close> and \<open>_dfs_listeners\<close> (the
  state manager \<open>_sm\<close> is the one of the state). A call of the branching may raise
  and may change the model.
\<close>

record 'x dfsearch =
  dfs_branching :: "'x \<times> state_manager \<Rightarrow> (exn + 'x closure list) \<times> 'x \<times> state_manager"
  dfs_curr_node_id_id :: int
  dfs_listeners :: "'x dfs_listener list"

definition DFSearch ::
  "('x \<times> state_manager \<Rightarrow> (exn + 'x closure list) \<times> 'x \<times> state_manager) \<Rightarrow> 'x dfsearch" where
  "DFSearch branching =
     \<lparr>dfs_branching = branching, dfs_curr_node_id_id = 0, dfs_listeners = []\<rparr>"

text \<open>
  \<open>on_solution(listener)\<close> and \<open>on_failure(listener)\<close> append a listener that calls the
  closure and ignores the identifiers.
\<close>

definition on_solution :: "'x closure \<Rightarrow> 'x dfsearch \<Rightarrow> 'x dfsearch" where
  "on_solution f d =
     d\<lparr>dfs_listeners := dfs_listeners d @
         [\<lparr>l_solution = (\<lambda>p i pos. f), l_fail = (\<lambda>p i pos. skip),
           l_branch = (\<lambda>p i pos n. skip)\<rparr>]\<rparr>"

definition on_failure :: "'x closure \<Rightarrow> 'x dfsearch \<Rightarrow> 'x dfsearch" where
  "on_failure f d =
     d\<lparr>dfs_listeners := dfs_listeners d @
         [\<lparr>l_solution = (\<lambda>p i pos. skip), l_fail = (\<lambda>p i pos. f),
           l_branch = (\<lambda>p i pos n. skip)\<rparr>]\<rparr>"

text \<open>
  While a search runs, its state holds the search object and the statistics object
  next to the model: a closure of the model is lifted to it.
\<close>

type_synonym 'x search = "('x dfsearch \<times> stats \<times> 'x) closure"

definition lift :: "'x closure \<Rightarrow> ('a \<times> 'x) closure" where
  "lift f s =
     (case s of ((a, x), m) \<Rightarrow> (case f (x, m) of (e, (x', m')) \<Rightarrow> (e, ((a, x'), m'))))"

definition lift2 :: "'x closure \<Rightarrow> 'x search" where
  "lift2 f = lift (lift f)"

definition notify_solution :: "int \<Rightarrow> int \<Rightarrow> int \<Rightarrow> 'x search" where
  "notify_solution parent_id node_id position s =
     seqs (map (\<lambda>l. lift2 (l_solution l parent_id node_id position))
             (dfs_listeners (fst (fst s)))) s"

definition notify_failure :: "int \<Rightarrow> int \<Rightarrow> int \<Rightarrow> 'x search" where
  "notify_failure parent_id node_id position s =
     seqs (map (\<lambda>l. lift2 (l_fail l parent_id node_id position))
             (dfs_listeners (fst (fst s)))) s"

definition notify_branch :: "int \<Rightarrow> int \<Rightarrow> int \<Rightarrow> int \<Rightarrow> 'x search" where
  "notify_branch parent_id node_id position n_childs s =
     seqs (map (\<lambda>l. lift2 (l_branch l parent_id node_id position n_childs))
             (dfs_listeners (fst (fst s)))) s"

definition incr_failures :: "'x search" where
  "incr_failures s =
     (case s of ((d, st, x), m) \<Rightarrow> (None, ((d, st\<lparr>n_failures := n_failures st + 1\<rparr>, x), m)))"

definition incr_nodes :: "'x search" where
  "incr_nodes s =
     (case s of ((d, st, x), m) \<Rightarrow> (None, ((d, st\<lparr>n_nodes := n_nodes st + 1\<rparr>, x), m)))"

definition incr_solutions :: "'x search" where
  "incr_solutions s =
     (case s of ((d, st, x), m) \<Rightarrow> (None, ((d, st\<lparr>n_solutions := n_solutions st + 1\<rparr>, x), m)))"

definition set_completed :: "'x search" where
  "set_completed s =
     (case s of ((d, st, x), m) \<Rightarrow> (None, ((d, st\<lparr>completed := True\<rparr>, x), m)))"

definition incr_curr_node_id_id :: "'x search" where
  "incr_curr_node_id_id s =
     (case s of ((d, st, x), m) \<Rightarrow>
        (None, ((d\<lparr>dfs_curr_node_id_id := dfs_curr_node_id_id d + 1\<rparr>, st, x), m)))"

section \<open>search.py: the depth-first search\<close>

text \<open>
  The closure \<open>callback\<close> of \<open>_dfs\<close> for the child \<open>b\<close> at position \<open>p\<close>; \<open>rec\<close> is the
  recursive call \<open>self._dfs(statistics, limit, node_id, p)\<close>. Only Inconsistency is
  caught.
\<close>

definition dfs_callback :: "'x search \<Rightarrow> int \<Rightarrow> int \<Rightarrow> int \<Rightarrow> 'x closure \<Rightarrow> 'x search" where
  "dfs_callback rec parent_id node_id p b s =
     (case seqs [incr_nodes, lift2 b, rec] s of
        (Some e, s1) \<Rightarrow>
          if e = InconsistencyException
          then seqs [incr_curr_node_id_id, incr_failures, notify_failure parent_id node_id p] s1
          else (Some e, s1)
      | (None, s1) \<Rightarrow> (None, s1))"

text \<open>
  The loop \<open>for b in branches: p = pos; self._sm.with_new_state(callback); pos += 1\<close>.
\<close>

fun dfs_children ::
  "(int \<Rightarrow> 'x search) \<Rightarrow> int \<Rightarrow> int \<Rightarrow> int \<Rightarrow> 'x closure list \<Rightarrow> 'x search" where
  "dfs_children rec parent_id node_id pos [] = skip"
| "dfs_children rec parent_id node_id pos (b # bs) =
     seq (with_new_state (dfs_callback (rec pos) parent_id node_id pos b))
         (dfs_children rec parent_id node_id (pos + 1) bs)"

text \<open>
  \<open>DFSearch._dfs(statistics, limit, parent_id, position)\<close>. The recursion is as deep
  as the search tree; Python ends a recursion that is too deep with RecursionError,
  and the first argument is the depth still allowed.
\<close>

primrec dfs ::
  "nat \<Rightarrow> (stats \<Rightarrow> 'x \<times> state_manager \<Rightarrow> bool) \<Rightarrow> int \<Rightarrow> int \<Rightarrow> 'x search" where
  "dfs 0 = (\<lambda>limit parent_id position. raise RecursionError)"
| "dfs (Suc n) = (\<lambda>limit parent_id position s.
     case s of ((d, st, x), m) \<Rightarrow>
       if limit st (x, m) then (Some StopSearchException, s)
       else
         (case dfs_branching d (x, m) of
            (Inl e, (x1, m1)) \<Rightarrow> (Some e, ((d, st, x1), m1))
          | (Inr branches, (x1, m1)) \<Rightarrow>
              (let node_id = dfs_curr_node_id_id d;
                   s1 = ((d\<lparr>dfs_curr_node_id_id := node_id + 1\<rparr>, st, x1), m1)
               in if length branches = 0
                  then seqs [incr_solutions, notify_solution parent_id node_id position] s1
                  else seqs [notify_branch parent_id node_id position (int (length branches)),
                             dfs_children (\<lambda>p. dfs n limit node_id p) parent_id node_id 0
                               branches] s1)))"

text \<open>
  \<open>DFSearch._solve(statistics, limit)\<close>: the statistics object is the one of the
  state.
\<close>

definition solve_callback :: "nat \<Rightarrow> (stats \<Rightarrow> 'x \<times> state_manager \<Rightarrow> bool) \<Rightarrow> 'x search" where
  "solve_callback depth limit s =
     (case seqs [dfs depth limit (- 1) (- 1), set_completed] s of
        (Some e, s1) \<Rightarrow>
          if e = StopSearchException then (None, s1)
          else if e = RecursionError then (Some NotImplementedError, s1)
          else (Some e, s1)
      | (None, s1) \<Rightarrow> (None, s1))"

definition solve_stats :: "nat \<Rightarrow> (stats \<Rightarrow> 'x \<times> state_manager \<Rightarrow> bool) \<Rightarrow> 'x search" where
  "solve_stats depth limit s =
     (case s of ((d, st, x), m) \<Rightarrow>
        with_new_state (solve_callback depth limit) ((d\<lparr>dfs_curr_node_id_id := 0\<rparr>, st, x), m))"

text \<open>
  The public methods run on the search object and the model. \<open>run_solve\<close> is
  \<open>self._solve(statistics, limit)\<close> seen from a caller that holds \<open>statistics\<close>: the
  object as the call leaves it, also when the call raises.
\<close>

type_synonym 'x search_state = "('x dfsearch \<times> 'x) \<times> state_manager"

definition run_solve ::
  "nat \<Rightarrow> stats \<Rightarrow> (stats \<Rightarrow> 'x \<times> state_manager \<Rightarrow> bool) \<Rightarrow> 'x search_state
   \<Rightarrow> (exn option \<times> stats) \<times> 'x search_state" where
  "run_solve depth st limit s =
     (case s of ((d, x), m) \<Rightarrow>
        (case solve_stats depth limit ((d, st, x), m) of
           (e, ((d', st', x'), m')) \<Rightarrow> ((e, st'), ((d', x'), m'))))"

definition never :: "stats \<Rightarrow> 'x \<times> state_manager \<Rightarrow> bool" where
  "never st s = False"

text \<open>\<open>DFSearch.solve(limit)\<close>; \<open>None\<close> is the limit that never stops.\<close>

definition solve ::
  "nat \<Rightarrow> (stats \<Rightarrow> 'x \<times> state_manager \<Rightarrow> bool) option \<Rightarrow> 'x search_state \<Rightarrow> (exn + stats) \<times> 'x search_state" where
  "solve depth limit s =
     (case run_solve depth SearchStatistics (case limit of Some l \<Rightarrow> l | None \<Rightarrow> never) s of
        ((Some e, st), s') \<Rightarrow> (Inl e, s')
      | ((None, st), s') \<Rightarrow> (Inr st, s'))"

text \<open>
  \<open>DFSearch.optimize(obj, limit)\<close>: \<open>obj.tighten\<close> becomes a solution listener. The
  objective is given by its \<open>tighten\<close>.
\<close>

definition optimize ::
  "nat \<Rightarrow> 'x closure \<Rightarrow> (stats \<Rightarrow> 'x \<times> state_manager \<Rightarrow> bool) option \<Rightarrow> 'x search_state
   \<Rightarrow> (exn + stats) \<times> 'x search_state" where
  "optimize depth tighten limit s =
     (case s of ((d, x), m) \<Rightarrow>
        (case run_solve depth SearchStatistics (case limit of Some l \<Rightarrow> l | None \<Rightarrow> never)
                ((on_solution tighten d, x), m) of
           ((Some e, st), s') \<Rightarrow> (Inl e, s')
         | ((None, st), s') \<Rightarrow> (Inr st, s')))"

text \<open>
  \<open>DFSearch.solve_subject_to(limit, subject_to)\<close>: the callback passes the outer
  \<open>statistics\<close> to \<open>_solve\<close>, which updates that object. The state of the callback
  holds it.
\<close>

definition solve_subject_to_callback ::
  "nat \<Rightarrow> (stats \<Rightarrow> 'x \<times> state_manager \<Rightarrow> bool) \<Rightarrow> 'x closure \<Rightarrow> 'x search" where
  "solve_subject_to_callback depth limit subject_to s =
     (case seqs [lift2 subject_to, solve_stats depth limit] s of
        (Some e, s1) \<Rightarrow> if e = InconsistencyException then (None, s1) else (Some e, s1)
      | (None, s1) \<Rightarrow> (None, s1))"

definition solve_subject_to ::
  "nat \<Rightarrow> (stats \<Rightarrow> 'x \<times> state_manager \<Rightarrow> bool) \<Rightarrow> 'x closure \<Rightarrow> 'x search_state
   \<Rightarrow> (exn + stats) \<times> 'x search_state" where
  "solve_subject_to depth limit subject_to s =
     (case s of ((d, x), m) \<Rightarrow>
        (case with_new_state (solve_subject_to_callback depth limit subject_to)
                ((d, SearchStatistics, x), m) of
           (Some e, ((d', st', x'), m')) \<Rightarrow> (Inl e, ((d', x'), m'))
         | (None, ((d', st', x'), m')) \<Rightarrow> (Inr st', ((d', x'), m'))))"

text \<open>
  \<open>DFSearch.optimize_subject_to(obj, limit, subject_to)\<close>. In the callback,
  \<open>statistics = self.optimize(obj, limit)\<close> assigns a variable of the callback
  (the function has no \<open>nonlocal\<close> declaration), so the value is dropped when the
  callback returns, and the method returns the object it created first.
\<close>

definition optimize_subject_to_callback ::
  "nat \<Rightarrow> 'x closure \<Rightarrow> (stats \<Rightarrow> 'x \<times> state_manager \<Rightarrow> bool) \<Rightarrow> 'x closure
   \<Rightarrow> ('x dfsearch \<times> 'x) closure" where
  "optimize_subject_to_callback depth tighten limit subject_to s =
     (case lift subject_to s of
        (Some e, s1) \<Rightarrow> if e = InconsistencyException then (None, s1) else (Some e, s1)
      | (None, s1) \<Rightarrow>
          (case optimize depth tighten (Some limit) s1 of
             (Inl e, s2) \<Rightarrow> if e = InconsistencyException then (None, s2) else (Some e, s2)
           | (Inr statistics, s2) \<Rightarrow> (None, s2)))"

definition optimize_subject_to ::
  "nat \<Rightarrow> 'x closure \<Rightarrow> (stats \<Rightarrow> 'x \<times> state_manager \<Rightarrow> bool) \<Rightarrow> 'x closure \<Rightarrow> 'x search_state
   \<Rightarrow> (exn + stats) \<times> 'x search_state" where
  "optimize_subject_to depth tighten limit subject_to s =
     (let statistics = SearchStatistics in
      case with_new_state (optimize_subject_to_callback depth tighten limit subject_to) s of
        (Some e, s') \<Rightarrow> (Inl e, s')
      | (None, s') \<Rightarrow> (Inr statistics, s'))"

section \<open>Claims on the sparse set\<close>

lemmas ss_defs = StateSparseSet_def ss_size_def ss_is_empty_def ss_min_def ss_max_def
  ss_internal_contains_def ss_contains_def ss_exchange_positions_def
  ss_update_max_val_removed_def ss_update_min_val_removed_def ss_update_bounds_val_removed_def
  ss_remove_def ss_remove_all_but_def ss_remove_all_def ss_remove_below_def ss_remove_above_def

text \<open>The set \<open>{10, ..., 14}\<close> on a trailer.\<close>

definition example_set :: "sparse_set \<times> state_manager" where
  "example_set = StateSparseSet 5 10 (Trailer Trailer_init)"

text \<open>
  Claim C10. \<open>StateSparseSet.min()\<close> and \<open>StateSparseSet.max()\<close> raise ValueError when
  the set is empty, and only then: on a set that is not empty they return the stored
  minimum and maximum, shifted by the offset.
\<close>

theorem sparse_set_min_max:
  "(ss_is_empty s m \<longrightarrow> ss_min s m = Inl ValueError \<and> ss_max s m = Inl ValueError) \<and>
   (\<not> ss_is_empty s m \<longrightarrow>
      ss_min s m = Inr (state_value (ss_min_ref s) m + ss_ofs s) \<and>
      ss_max s m = Inr (state_value (ss_max_ref s) m + ss_ofs s))"
  by (simp add: ss_min_def ss_max_def)

text \<open>
  The theorem of C10 on \<open>{10, ..., 14}\<close>, on the set after \<open>remove_all\<close> and on the set
  after \<open>remove(10)\<close>.
\<close>

theorem sparse_set_min_max_witness:
  "\<not> ss_is_empty (fst example_set) (snd example_set) \<and>
   ss_min (fst example_set) (snd example_set) = Inr 10 \<and>
   ss_max (fst example_set) (snd example_set) = Inr 14 \<and>
   ss_is_empty (fst (ss_remove_all example_set)) (snd (ss_remove_all example_set)) \<and>
   ss_min (fst (ss_remove_all example_set)) (snd (ss_remove_all example_set)) = Inl ValueError \<and>
   ss_max (fst (ss_remove_all example_set)) (snd (ss_remove_all example_set)) = Inl ValueError \<and>
   ss_min (fst (snd (ss_remove 10 example_set))) (snd (snd (ss_remove 10 example_set)))
     = Inr 11"
proof -
  let ?s = "fst example_set" and ?m = "snd example_set"
  let ?e = "ss_remove_all example_set"
  let ?r = "snd (ss_remove 10 example_set)"
  have ne: "\<not> ss_is_empty ?s ?m"
    by (simp add: example_set_def ss_defs sm_defs)
  have em: "ss_is_empty (fst ?e) (snd ?e)"
    by (simp add: example_set_def ss_defs sm_defs Let_def)
  have nr: "\<not> ss_is_empty (fst ?r) (snd ?r)"
    by (simp add: example_set_def ss_defs sm_defs Let_def upto.simps)
  have v1: "state_value (ss_min_ref ?s) ?m + ss_ofs ?s = 10"
    "state_value (ss_max_ref ?s) ?m + ss_ofs ?s = 14"
    by (simp_all add: example_set_def ss_defs sm_defs)
  have v2: "state_value (ss_min_ref (fst ?r)) (snd ?r) + ss_ofs (fst ?r) = 11"
    by (simp add: example_set_def ss_defs sm_defs Let_def upto.simps)
  from sparse_set_min_max [of ?s ?m] ne v1
  have a: "ss_min ?s ?m = Inr 10 \<and> ss_max ?s ?m = Inr 14" by simp
  from sparse_set_min_max [of "fst ?e" "snd ?e"] em
  have b: "ss_min (fst ?e) (snd ?e) = Inl ValueError \<and> ss_max (fst ?e) (snd ?e) = Inl ValueError"
    by simp
  from sparse_set_min_max [of "fst ?r" "snd ?r"] nr v2
  have c: "ss_min (fst ?r) (snd ?r) = Inr 11" by simp
  from ne em a b c show ?thesis by simp
qed

section \<open>Claims on variables and constraints\<close>

text \<open>
  Two variables with the domain \<open>{2147483646}\<close>, and a posting that does nothing, for
  \<open>sum_var\<close>.
\<close>

definition two_large_vars :: cp_state where
  "two_large_vars =
     snd (make_int_var (Some 2147483646) (Some 2147483646) None None
       (snd (make_int_var (Some 2147483646) (Some 2147483646) None None (make_solver False))))"

definition no_post :: "ivar list \<Rightarrow> ivar \<Rightarrow> cp_objs closure" where
  "no_post xs y = skip"

lemma sum_bounds_sums:
  assumes "map (\<lambda>x. var_min x s) xs = map Inr mns"
    and "map (\<lambda>x. var_max x s) xs = map Inr mxs"
  shows "sum_bounds xs s (lo, hi) = Inr (lo + sum_list mns, hi + sum_list mxs)"
  using assms
proof (induction xs arbitrary: mns mxs lo hi)
  case Nil
  then show ?case by simp
next
  case (Cons x xs)
  from Cons.prems obtain mn mns' where mns: "mns = mn # mns'" "var_min x s = Inr mn"
    "map (\<lambda>x. var_min x s) xs = map Inr mns'"
    by (cases mns) auto
  from Cons.prems obtain mx mxs' where mxs: "mxs = mx # mxs'" "var_max x s = Inr mx"
    "map (\<lambda>x. var_max x s) xs = map Inr mxs'"
    by (cases mxs) auto
  from Cons.IH [OF mns(3) mxs(3)] mns(1,2) mxs(1,2) show ?case
    by (simp add: add.assoc)
qed

lemma Sum_init_no_overflow: "fst (Sum_init xs y v s) \<noteq> Inl OverflowError"
  by (auto simp: Sum_init_def minus_var_def make_int_var_def IntVarImpl_def Let_def
      split: prod.splits sum.splits if_splits option.splits)

lemma Sum_init_var:
  assumes "xs \<noteq> []"
  shows "\<exists>c. fst (Sum_init xs (Some t) None s) = Inr c \<and> sum_x c = xs @ [ViewOpposite t]"
  using assms
  by (auto simp: Sum_init_def minus_var_def Let_def split: prod.splits)

text \<open>
  Claim C4, as amended. Constructing a \<open>Sum\<close> constraint reads no bound of a
  variable: it never raises OverflowError, and with a variable \<open>y\<close> on the right it
  accepts every non-empty list of variables and appends \<open>-y\<close>. The check that the sums
  of the bounds fit in the 32-bit signed range is the one of \<open>sum_var\<close>: when the
  minima sum to less than \<open>MIN_VALUE\<close> or the maxima to more than \<open>MAX_VALUE\<close>, it
  raises OverflowError before it creates a variable or a constraint.
\<close>

theorem Sum_construction_checks_no_bound:
  "fst (Sum xs y v s) \<noteq> Inl OverflowError \<and>
   (xs \<noteq> [] \<longrightarrow>
      (\<exists>c. fst (Sum xs (Some t) None s) = Inr c \<and> sum_x c = xs @ [ViewOpposite t])) \<and>
   (map (\<lambda>x. var_min x s) xs = map Inr mns \<and> map (\<lambda>x. var_max x s) xs = map Inr mxs \<and>
    (sum_list mns < MIN_VALUE \<or> MAX_VALUE < sum_list mxs) \<longrightarrow>
      sum_var post_sum xs s = (Inl OverflowError, s))"
proof (intro conjI impI)
  show "fst (Sum xs y v s) \<noteq> Inl OverflowError"
    unfolding Sum_def by (rule Sum_init_no_overflow)
next
  assume "xs \<noteq> []"
  then show "\<exists>c. fst (Sum xs (Some t) None s) = Inr c \<and> sum_x c = xs @ [ViewOpposite t]"
    unfolding Sum_def by (rule Sum_init_var)
next
  assume a: "map (\<lambda>x. var_min x s) xs = map Inr mns \<and>
    map (\<lambda>x. var_max x s) xs = map Inr mxs \<and>
    (sum_list mns < MIN_VALUE \<or> MAX_VALUE < sum_list mxs)"
  then have "sum_bounds xs s (0, 0) = Inr (sum_list mns, sum_list mxs)"
    using sum_bounds_sums [of s xs mns mxs 0 0] by simp
  with a show "sum_var post_sum xs s = (Inl OverflowError, s)"
    by (auto simp: sum_var_def)
qed

text \<open>
  Claim C4 as stated fails: the bounds of the two variables sum to \<open>4294967292\<close>, above
  \<open>MAX_VALUE\<close>, and \<open>Sum([x1, x2], v=0)\<close> and \<open>Sum([x1, x2], y=x1)\<close> return the new
  constraint all the same, where \<open>sum_var([x1, x2])\<close> raises OverflowError.
\<close>

theorem Sum_accepts_overflowing_bounds:
  "sum_bounds [VarImpl 0, VarImpl 1] two_large_vars (0, 0) = Inr (4294967292, 4294967292) \<and>
   MAX_VALUE < 4294967292 \<and>
   fst (Sum [VarImpl 0, VarImpl 1] None (Some 0) two_large_vars) =
     Inr \<lparr>sum_c = 0, sum_x = [VarImpl 0, VarImpl 1, VarImpl 2], sum_n = 3,
          sum_min = [0, 0, 0], sum_max = [0, 0, 0], sum_n_fixed = 20, sum_sum_fixed = 21,
          sum_fixed = [0, 1, 2]\<rparr> \<and>
   fst (Sum [VarImpl 0, VarImpl 1] (Some (VarImpl 0)) None two_large_vars) =
     Inr \<lparr>sum_c = 0, sum_x = [VarImpl 0, VarImpl 1, ViewOpposite (VarImpl 0)], sum_n = 3,
          sum_min = [0, 0, 0], sum_max = [0, 0, 0], sum_n_fixed = 14, sum_sum_fixed = 15,
          sum_fixed = [0, 1, 2]\<rparr> \<and>
   fst (sum_var no_post [VarImpl 0, VarImpl 1] two_large_vars) = Inl OverflowError"
  by code_simp

text \<open>The theorem of C4 on the two variables.\<close>

theorem Sum_construction_checks_no_bound_witness:
  "fst (Sum [VarImpl 0, VarImpl 1] None (Some 0) two_large_vars) \<noteq> Inl OverflowError \<and>
   (\<exists>c. fst (Sum [VarImpl 0, VarImpl 1] (Some (VarImpl 0)) None two_large_vars) = Inr c \<and>
        sum_x c = [VarImpl 0, VarImpl 1, ViewOpposite (VarImpl 0)]) \<and>
   sum_list [2147483646, 2147483646] > MAX_VALUE \<and>
   sum_var no_post [VarImpl 0, VarImpl 1] two_large_vars = (Inl OverflowError, two_large_vars)"
proof -
  have mn: "map (\<lambda>x. var_min x two_large_vars) [VarImpl 0, VarImpl 1] =
      map Inr [2147483646, 2147483646]"
    by code_simp
  have mx: "map (\<lambda>x. var_max x two_large_vars) [VarImpl 0, VarImpl 1] =
      map Inr [2147483646, 2147483646]"
    by code_simp
  have big: "MAX_VALUE < sum_list [2147483646, 2147483646]"
    by (simp add: MAX_VALUE_def)
  from Sum_construction_checks_no_bound
    [of "[VarImpl 0, VarImpl 1]" None "Some 0" two_large_vars "VarImpl 0"
      "[2147483646, 2147483646]" "[2147483646, 2147483646]" no_post] mn mx big
  show ?thesis
    by simp
qed

text \<open>
  Claim C5 does not hold of the code. \<open>make_int_var(cp, values=vals)\<close> raises
  NotImplementedError for every set of values, and creates nothing.
\<close>

theorem make_int_var_values_not_implemented:
  "make_int_var None None None (Some vals) s = (Inl NotImplementedError, s)"
  by (simp add: make_int_var_def IntVarImpl_def)

text \<open>The variable \<open>x\<close> with the domain \<open>{lo, ..., hi}\<close>, for the view \<open>2 * x\<close>.\<close>

definition mul_example :: "int \<Rightarrow> int \<Rightarrow> cp_state" where
  "mul_example lo hi = snd (make_int_var (Some lo) (Some hi) None None (make_solver False))"

text \<open>
  Claim C6 does not hold of the code. \<open>_ceil_div(3, 2)\<close> is \<open>1\<close> and \<open>_floor_div(-3, 2)\<close>
  is \<open>-1\<close>, where the ceiling of \<open>3/2\<close> is \<open>2\<close> and the floor of \<open>-3/2\<close> is \<open>-2\<close>;
  likewise for \<open>7/3\<close>. So on \<open>y = 2 * x\<close> with \<open>x\<close> in \<open>{0, ..., 3}\<close>,
  \<open>y.remove_below(3)\<close> leaves \<open>y.min() = 2\<close>, and with \<open>x\<close> in \<open>{-3, ..., 0}\<close>,
  \<open>y.remove_above(-3)\<close> leaves \<open>y.max() = -2\<close>.
\<close>

theorem ViewMul_remove_below_truncates:
  "ceil_div 3 2 = Inr 1 \<and> floor_div (- 3) 2 = Inr (- 1) \<and>
   ceil_div 7 3 = Inr 2 \<and> floor_div (- 7) 3 = Inr (- 2) \<and>
   fst (var_remove_below (ViewMul (VarImpl 0) 2) 3 (mul_example 0 3)) = None \<and>
   var_min (ViewMul (VarImpl 0) 2)
     (snd (var_remove_below (ViewMul (VarImpl 0) 2) 3 (mul_example 0 3))) = Inr 2 \<and>
   fst (var_remove_above (ViewMul (VarImpl 0) 2) (- 3) (mul_example (- 3) 0)) = None \<and>
   var_max (ViewMul (VarImpl 0) 2)
     (snd (var_remove_above (ViewMul (VarImpl 0) 2) (- 3) (mul_example (- 3) 0))) = Inr (- 2)"
  by code_simp

text \<open>
  A Boolean variable \<open>b\<close> fixed to true, \<open>x\<close> in \<open>{0, ..., 5}\<close> and a new reified
  constraint on \<open>b\<close>, \<open>x\<close> and \<open>3\<close>.
\<close>

definition reified_example :: "reified \<times> cp_state" where
  "reified_example =
     (let s1 = snd (make_bool_var (make_solver False));
          s2 = snd (make_int_var (Some 0) (Some 5) None None s1);
          s3 = snd (bool_fix (BoolVar (VarImpl 0)) True s2)
      in Reified (BoolVar (VarImpl 0)) (VarImpl 1) 3 s3)"

text \<open>
  Claim C7 does not hold of the code. With \<open>b\<close> fixed to true, \<open>IsLessOrEqual.post\<close>
  enforces \<open>x \<le> 3\<close>, registers nothing and leaves the constraint active, where
  \<open>IsEqual.post\<close> leaves it inactive.
\<close>

theorem IsLessOrEqual_stays_active:
  "is_true (re_b (fst reified_example)) (snd reified_example) = Inr True \<and>
   is_active (re_c (fst reified_example)) (snd reified_example) \<and>
   fst (fst (IsLessOrEqual_post (fst reified_example) (snd reified_example))) = None \<and>
   length (snd (fst (IsLessOrEqual_post (fst reified_example) (snd reified_example)))) = 0 \<and>
   var_max (re_x (fst reified_example))
     (snd (IsLessOrEqual_post (fst reified_example) (snd reified_example))) = Inr 3 \<and>
   is_active (re_c (fst reified_example))
     (snd (IsLessOrEqual_post (fst reified_example) (snd reified_example))) \<and>
   fst (IsEqual_post (fst reified_example) (snd reified_example)) = None \<and>
   \<not> is_active (re_c (fst reified_example))
     (snd (IsEqual_post (fst reified_example) (snd reified_example)))"
  by code_simp

section \<open>Claims on the search\<close>

text \<open>
  A branching on the variables \<open>xs\<close>: the first one that is not fixed, with the
  alternatives \<open>fix(0)\<close> and \<open>fix(1)\<close>, and no alternative when all are fixed. The
  model has three variables with the domain \<open>{0, 1}\<close> and no constraint.
\<close>

definition first_unfixed ::
  "ivar list \<Rightarrow> cp_state \<Rightarrow> (exn + cp_objs closure list) \<times> cp_state" where
  "first_unfixed xs s =
     (case find (\<lambda>x. \<not> var_is_fixed x s) xs of
        None \<Rightarrow> (Inr [], s)
      | Some x \<Rightarrow> (Inr [var_fix x 0, var_fix x 1], s))"

definition three_variables :: "bool \<Rightarrow> cp_state" where
  "three_variables by_copy =
     snd (make_int_var (Some 0) (Some 1) None None
       (snd (make_int_var (Some 0) (Some 1) None None
         (snd (make_int_var (Some 0) (Some 1) None None (make_solver by_copy))))))"

definition three_search :: "bool \<Rightarrow> ivar list \<Rightarrow> cp_objs search_state" where
  "three_search by_copy xs =
     (case three_variables by_copy of (x, m) \<Rightarrow> ((DFSearch (first_unfixed xs), x), m))"

lemma three_cases:
  assumes "{i, j, k} = {0, 1, 2 :: nat}"
  shows "i = 0 \<and> j = 1 \<and> k = 2 \<or> i = 0 \<and> j = 2 \<and> k = 1 \<or> i = 1 \<and> j = 0 \<and> k = 2 \<or>
    i = 1 \<and> j = 2 \<and> k = 0 \<or> i = 2 \<and> j = 0 \<and> k = 1 \<or> i = 2 \<and> j = 1 \<and> k = 0"
proof -
  have "i \<in> {0, 1, 2}"
    using assms by blast
  then have a: "i = 0 \<or> i = 1 \<or> i = 2"
    by simp
  have "0 \<in> {i, j, k}" "1 \<in> {i, j, k}" "2 \<in> {i, j, k}"
    using assms by blast+
  then have b: "i = 0 \<or> j = 0 \<or> k = 0" "i = 1 \<or> j = 1 \<or> k = 1" "i = 2 \<or> j = 2 \<or> k = 2"
    by auto
  from a show ?thesis
  proof (elim disjE)
    assume i: "i = 0"
    with b have "j = 1 \<or> k = 1" "j = 2 \<or> k = 2"
      by simp_all
    then show ?thesis
      using i by auto
  next
    assume i: "i = 1"
    with b have "j = 0 \<or> k = 0" "j = 2 \<or> k = 2"
      by simp_all
    then show ?thesis
      using i by auto
  next
    assume i: "i = 2"
    with b have "j = 0 \<or> k = 0" "j = 1 \<or> k = 1"
      by simp_all
    then show ?thesis
      using i by auto
  qed
qed

text \<open>
  Claim C8. On the three 0/1 variables, taken by the branching in any order,
  on a trailer or on a copier, \<open>solve()\<close> with no limit returns the statistics
  \<open>solutions = 8\<close>, \<open>failures = 0\<close>, \<open>nodes = 14\<close>, \<open>completed = true\<close>, as soon as
  four nested calls of \<open>_dfs\<close> are allowed.
\<close>

theorem dfs_three_binary_variables:
  assumes "{i, j, k} = {0, 1, 2 :: nat}"
  shows "fst (solve (Suc (Suc (Suc (Suc n)))) None
            (three_search by_copy [VarImpl i, VarImpl j, VarImpl k])) =
         Inr \<lparr>n_failures = 0, n_nodes = 14, n_solutions = 8, completed = True\<rparr>"
proof -
  let ?r = "\<lambda>b i j k. fst (solve (Suc (Suc (Suc (Suc n)))) None
     (three_search b [VarImpl i, VarImpl j, VarImpl k]))"
  let ?st = "Inr \<lparr>n_failures = 0, n_nodes = 14, n_solutions = 8, completed = True\<rparr>"
  have t: "?r True 0 1 2 = ?st" "?r True 0 2 1 = ?st" "?r True 1 0 2 = ?st"
    "?r True 1 2 0 = ?st" "?r True 2 0 1 = ?st" "?r True 2 1 0 = ?st"
    by code_simp+
  have f: "?r False 0 1 2 = ?st" "?r False 0 2 1 = ?st" "?r False 1 0 2 = ?st"
    "?r False 1 2 0 = ?st" "?r False 2 0 1 = ?st" "?r False 2 1 0 = ?st"
    by code_simp+
  from three_cases [OF assms] consider
    "i = 0 \<and> j = 1 \<and> k = 2" | "i = 0 \<and> j = 2 \<and> k = 1" | "i = 1 \<and> j = 0 \<and> k = 2" |
    "i = 1 \<and> j = 2 \<and> k = 0" | "i = 2 \<and> j = 0 \<and> k = 1" | "i = 2 \<and> j = 1 \<and> k = 0"
    by blast
  then show ?thesis
  proof cases
    case 1
    then have "i = 0" "j = 1" "k = 2" by simp_all
    then show ?thesis unfolding \<open>i = 0\<close> \<open>j = 1\<close> \<open>k = 2\<close>
      by (cases by_copy) (simp_all only: t f)
  next
    case 2
    then have "i = 0" "j = 2" "k = 1" by simp_all
    then show ?thesis unfolding \<open>i = 0\<close> \<open>j = 2\<close> \<open>k = 1\<close>
      by (cases by_copy) (simp_all only: t f)
  next
    case 3
    then have "i = 1" "j = 0" "k = 2" by simp_all
    then show ?thesis unfolding \<open>i = 1\<close> \<open>j = 0\<close> \<open>k = 2\<close>
      by (cases by_copy) (simp_all only: t f)
  next
    case 4
    then have "i = 1" "j = 2" "k = 0" by simp_all
    then show ?thesis unfolding \<open>i = 1\<close> \<open>j = 2\<close> \<open>k = 0\<close>
      by (cases by_copy) (simp_all only: t f)
  next
    case 5
    then have "i = 2" "j = 0" "k = 1" by simp_all
    then show ?thesis unfolding \<open>i = 2\<close> \<open>j = 0\<close> \<open>k = 1\<close>
      by (cases by_copy) (simp_all only: t f)
  next
    case 6
    then have "i = 2" "j = 1" "k = 0" by simp_all
    then show ?thesis unfolding \<open>i = 2\<close> \<open>j = 1\<close> \<open>k = 0\<close>
      by (cases by_copy) (simp_all only: t f)
  qed
qed

text \<open>The theorem of C8 on the order \<open>x2, x0, x1\<close>, on a trailer, at depth four.\<close>

theorem dfs_three_binary_variables_witness:
  "fst (solve 4 None (three_search False [VarImpl 2, VarImpl 0, VarImpl 1])) =
     Inr \<lparr>n_failures = 0, n_nodes = 14, n_solutions = 8, completed = True\<rparr>"
  using dfs_three_binary_variables [of 2 0 1 0 False]
  by (simp add: insert_commute eval_nat_numeral)

text \<open>
  Claim C9. Whenever \<open>optimize_subject_to\<close> returns, for any objective, limit and
  \<open>subject_to\<close>, in any state, the statistics it returns count no node, no failure
  and no solution, and are not completed.
\<close>

theorem optimize_subject_to_returns_fresh_statistics:
  assumes "fst (optimize_subject_to depth tighten limit subject_to s) = Inr st"
  shows "n_nodes st = 0 \<and> n_failures st = 0 \<and> n_solutions st = 0 \<and> \<not> completed st"
  using assms
  by (auto simp: optimize_subject_to_def SearchStatistics_def Let_def
      split: prod.splits option.splits)

text \<open>
  The state in which the callback of \<open>optimize_subject_to\<close> calls \<open>optimize\<close>, on
  the model of the three variables with a \<open>subject_to\<close> that does nothing.
\<close>

definition nested_state :: "cp_objs search_state" where
  "nested_state =
     (case three_search False [VarImpl 0, VarImpl 1, VarImpl 2] of
        (x, m) \<Rightarrow> snd (lift skip (x, save_state m)))"

text \<open>
  The theorem of C9 on the three variables: the nested \<open>optimize\<close> visits 14 nodes
  and finds 8 solutions, and \<open>optimize_subject_to\<close> returns statistics that are all
  zero.
\<close>

theorem optimize_subject_to_returns_fresh_statistics_witness:
  "fst (optimize 4 skip (Some never) nested_state) =
     Inr \<lparr>n_failures = 0, n_nodes = 14, n_solutions = 8, completed = True\<rparr> \<and>
   fst (optimize_subject_to 4 skip never skip
          (three_search False [VarImpl 0, VarImpl 1, VarImpl 2])) =
     Inr \<lparr>n_failures = 0, n_nodes = 0, n_solutions = 0, completed = False\<rparr>"
proof -
  let ?r = "fst (optimize_subject_to 4 skip never skip
          (three_search False [VarImpl 0, VarImpl 1, VarImpl 2]))"
  have "\<not> isl ?r"
    by code_simp
  then obtain st where st: "?r = Inr st"
    by (cases ?r) auto
  from optimize_subject_to_returns_fresh_statistics [OF st] have "st = \<lparr>n_failures = 0, n_nodes = 0, n_solutions = 0, completed = False\<rparr>"
    by (cases st) simp
  moreover have "fst (optimize 4 skip (Some never) nested_state) =
     Inr \<lparr>n_failures = 0, n_nodes = 14, n_solutions = 8, completed = True\<rparr>"
    by code_simp
  ultimately show ?thesis
    using st by simp
qed

end
